theory Spec2Isabelle
  imports Complex_Main "HOL-Library.Word"
begin

section \<open>JavaScript numbers\<close>

text \<open>
  A JavaScript number is an IEEE 754 double. The helpers of this section are called with
  integers: an integer-valued double is modelled by its value (type \<open>int\<close>), the two zeros
  are one value. Every arithmetic operation yields the exact result rounded to the nearest
  double, a tie going to the even significand.
\<close>

text \<open>The number of binary digits of a natural number.\<close>

fun bit_length :: "nat \<Rightarrow> nat" where
  "bit_length n = (if n = 0 then 0 else Suc (bit_length (n div 2)))"

declare bit_length.simps [simp del]

text \<open>The quotient \<open>a / b\<close> of a non-negative \<open>a\<close> by a positive \<open>b\<close>, rounded to the nearest
  integer, a tie going to the even one.\<close>

definition round_half_even :: "int \<Rightarrow> int \<Rightarrow> int" where
  "round_half_even a b =
     (let q = a div b; r = a mod b
      in if 2 * r < b then q
         else if b < 2 * r then q + 1
         else if even q then q else q + 1)"

text \<open>\<open>2 ^ k \<le> a / b\<close>, and the binary exponent \<open>\<lfloor>log\<^sub>2 (a / b)\<rfloor>\<close> of a positive quotient.\<close>

definition pow2_le_quot :: "int \<Rightarrow> int \<Rightarrow> int \<Rightarrow> bool" where
  "pow2_le_quot k a b = (if 0 \<le> k then b * 2 ^ nat k \<le> a else b \<le> a * 2 ^ nat (- k))"

definition ilog2_quot :: "int \<Rightarrow> int \<Rightarrow> int" where
  "ilog2_quot a b =
     (let k = int (bit_length (nat a)) - int (bit_length (nat b))
      in if pow2_le_quot k a b then k else k - 1)"

text \<open>
  The division \<^verbatim>\<open>a / b\<close> of two integer-valued doubles, for a positive divisor. The result
  is the double \<open>m * 2 ^ e\<close>, given as the pair \<open>(m, e)\<close>: the quotient is rounded to 53
  significant bits, and to a multiple of \<open>2 ^ - 1074\<close> in the subnormal range. The quotient
  of a double by a number that is at least 1 does not overflow.
\<close>

definition double_div :: "int \<Rightarrow> int \<Rightarrow> int \<times> int" where
  "double_div a b =
     (if a = 0 then (0, 0)
      else let e = max (- 1074) (ilog2_quot \<bar>a\<bar> b - 52);
               m = (if 0 \<le> e then round_half_even \<bar>a\<bar> (b * 2 ^ nat e)
                    else round_half_even (\<bar>a\<bar> * 2 ^ nat (- e)) b)
           in (sgn a * m, e))"

text \<open>\<^verbatim>\<open>Math.ceil\<close> of the double \<open>m * 2 ^ e\<close>: an integer, and exact.\<close>

definition ceil_double :: "int \<times> int \<Rightarrow> int" where
  "ceil_double d =
     (case d of (m, e) \<Rightarrow>
        if 0 \<le> e then m * 2 ^ nat e else - ((- m) div 2 ^ nat (- e)))"

text \<open>
  The results of \<^verbatim>\<open>+\<close>, \<^verbatim>\<open>-\<close> and \<^verbatim>\<open>*\<close> on integer-valued doubles: an integer-valued double
  again, an infinity when the rounded result is \<open>2 ^ 1024\<close> or more in magnitude, or
  \<^verbatim>\<open>NaN\<close>. An integer of at most 53 binary digits is a double; a longer one is rounded to
  53 significant bits.
\<close>

datatype jsnumber = Num int | PosInfinity | NegInfinity | NaN

definition double_int :: "int \<Rightarrow> jsnumber" where
  "double_int n =
     (let e = int (bit_length (nat \<bar>n\<bar>)) - 53
      in if e \<le> 0 then Num n
         else let v = round_half_even \<bar>n\<bar> (2 ^ nat e) * 2 ^ nat e
              in if 2 ^ 1024 \<le> v then (if 0 < n then PosInfinity else NegInfinity)
                 else Num (sgn n * v))"

fun js_add :: "jsnumber \<Rightarrow> jsnumber \<Rightarrow> jsnumber" where
  "js_add NaN y = NaN"
| "js_add x NaN = NaN"
| "js_add (Num a) (Num b) = double_int (a + b)"
| "js_add PosInfinity NegInfinity = NaN"
| "js_add NegInfinity PosInfinity = NaN"
| "js_add PosInfinity y = PosInfinity"
| "js_add NegInfinity y = NegInfinity"
| "js_add (Num a) PosInfinity = PosInfinity"
| "js_add (Num a) NegInfinity = NegInfinity"

fun js_neg :: "jsnumber \<Rightarrow> jsnumber" where
  "js_neg (Num a) = Num (- a)"
| "js_neg PosInfinity = NegInfinity"
| "js_neg NegInfinity = PosInfinity"
| "js_neg NaN = NaN"

definition js_sub :: "jsnumber \<Rightarrow> jsnumber \<Rightarrow> jsnumber" where
  "js_sub x y = js_add x (js_neg y)"

fun js_sign :: "jsnumber \<Rightarrow> int" where
  "js_sign (Num a) = sgn a"
| "js_sign PosInfinity = 1"
| "js_sign NegInfinity = - 1"
| "js_sign NaN = 0"

fun js_mul :: "jsnumber \<Rightarrow> jsnumber \<Rightarrow> jsnumber" where
  "js_mul NaN y = NaN"
| "js_mul x NaN = NaN"
| "js_mul (Num a) (Num b) = double_int (a * b)"
| "js_mul x y =
     (if js_sign x * js_sign y = 0 then NaN
      else if 0 < js_sign x * js_sign y then PosInfinity else NegInfinity)"

section \<open>Response builder: pagination\<close>

text \<open>
  \<^verbatim>\<open>buildPageInfo(total, page, limit)\<close> of the response helpers, on integer arguments.
  \<^verbatim>\<open>Math.max\<close> and the comparisons are exact; \<^verbatim>\<open>total / safeLimit\<close> is the double division.
\<close>

record PageInfo =
  page :: int
  pageCount :: int
  limit :: int
  total :: int
  hasNext :: bool
  hasPrev :: bool

definition buildPageInfo :: "int \<Rightarrow> int \<Rightarrow> int \<Rightarrow> PageInfo" where
  "buildPageInfo total' page' limit' =
     (let safeLimit = max 1 limit';
          pageCount' = max 1 (ceil_double (double_div total' safeLimit))
      in \<lparr> page = page',
           pageCount = pageCount',
           limit = safeLimit,
           total = total',
           hasNext = (page' < pageCount'),
           hasPrev = (page' > 1) \<rparr>)"

section \<open>Default query schema: page range\<close>

text \<open>
  \<^verbatim>\<open>querySchemaToRange({page, limit})\<close>: the zero-based inclusive row range of a page, on
  integer arguments, each operation in double arithmetic.
\<close>

record Range =
  "from" :: jsnumber
  to :: jsnumber

definition querySchemaToRange :: "int \<Rightarrow> int \<Rightarrow> Range" where
  "querySchemaToRange page' limit' =
     (let from' = js_mul (js_sub (Num page') (Num 1)) (Num limit');
          to' = js_sub (js_add from' (Num limit')) (Num 1)
      in \<lparr> from = from', to = to' \<rparr>)"

section \<open>Values, errors and responses\<close>

text \<open>
  The values that travel through the request pipeline (decoded bodies, parameters, query
  objects, JSON response bodies). An object is the list of its own properties in insertion
  order; \<open>JNum\<close> carries the integer-valued numbers.
\<close>

datatype jsval =
    JUndefined
  | JNull
  | JBool bool
  | JNum int
  | JStr string
  | JArr "jsval list"
  | JObj "(string \<times> jsval) list"

text \<open>Assignment \<^verbatim>\<open>obj[key] = v\<close>: an existing key keeps its place, a new one is appended.\<close>

fun obj_set :: "(string \<times> jsval) list \<Rightarrow> string \<Rightarrow> jsval \<Rightarrow> (string \<times> jsval) list" where
  "obj_set [] k v = [(k, v)]"
| "obj_set ((k', v') # ps) k v = (if k' = k then (k, v) # ps else (k', v') # obj_set ps k v)"

text \<open>Property read \<^verbatim>\<open>obj.key\<close>: \<^verbatim>\<open>undefined\<close> when the key is missing.\<close>

definition obj_get :: "(string \<times> jsval) list \<Rightarrow> string \<Rightarrow> jsval" where
  "obj_get ps k = (case map_of ps k of None \<Rightarrow> JUndefined | Some v \<Rightarrow> v)"

text \<open>\<^verbatim>\<open>Object.fromEntries(entries)\<close>.\<close>

definition fromEntries :: "(string \<times> jsval) list \<Rightarrow> (string \<times> jsval) list" where
  "fromEntries es = fold (\<lambda>(k, v) obj. obj_set obj k v) es []"

text \<open>An array index as a property key: its decimal digits.\<close>

definition digit_char :: "nat \<Rightarrow> char" where
  "digit_char d = char_of (48 + d)"

fun index_key :: "nat \<Rightarrow> string" where
  "index_key i = (if i < 10 then [digit_char i] else index_key (i div 10) @ [digit_char (i mod 10)])"

text \<open>
  The own enumerable properties that an object spread \<^verbatim>\<open>{...v}\<close> copies: the fields of an
  object, the indexed elements of an array, the indexed characters of a string, nothing for
  the other primitives.
\<close>

definition spread_props :: "jsval \<Rightarrow> (string \<times> jsval) list" where
  "spread_props v =
     (case v of
        JObj ps \<Rightarrow> ps
      | JArr xs \<Rightarrow> map (\<lambda>i. (index_key i, xs ! i)) [0 ..< length xs]
      | JStr cs \<Rightarrow> map (\<lambda>i. (index_key i, JStr [cs ! i])) [0 ..< length cs]
      | _ \<Rightarrow> [])"

text \<open>An object literal continued by a spread: \<^verbatim>\<open>{ ...ps, ...v }\<close>.\<close>

definition spread_into :: "(string \<times> jsval) list \<Rightarrow> jsval \<Rightarrow> (string \<times> jsval) list" where
  "spread_into ps v = fold (\<lambda>(k, x) obj. obj_set obj k x) (spread_props v) ps"

text \<open>
  Thrown values. \<open>ZodError\<close> is the validation engine's exception with its issues,
  \<open>HttpError\<close> the status-carrying error of the taxonomy (the four named subclasses are
  instances of it), \<open>OtherError\<close> any other thrown value, named.
\<close>

datatype exn =
    ZodError "jsval list"
  | HttpError int string
  | OtherError string

definition BadRequest :: "string option \<Rightarrow> exn" where
  "BadRequest msg = HttpError 400 (case msg of None \<Rightarrow> ''Bad request'' | Some m \<Rightarrow> m)"

definition Unauthorized :: "string option \<Rightarrow> exn" where
  "Unauthorized msg = HttpError 401 (case msg of None \<Rightarrow> ''Unauthorized'' | Some m \<Rightarrow> m)"

definition Forbidden :: "string option \<Rightarrow> exn" where
  "Forbidden msg = HttpError 403 (case msg of None \<Rightarrow> ''Forbidden'' | Some m \<Rightarrow> m)"

definition NotFound :: "string option \<Rightarrow> exn" where
  "NotFound msg = HttpError 404 (case msg of None \<Rightarrow> ''Not found'' | Some m \<Rightarrow> m)"

text \<open>JavaScript strings are sequences of UTF-16 code units.\<close>

type_synonym jsstring = "16 word list"

datatype resp_body = JsonBody jsval | RawBody "8 word list option"

record response =
  status :: int
  resp_body :: resp_body
  headers :: "(string \<times> jsstring) list"

record ResponseInit =
  init_status :: "int option"
  init_headers :: "(string \<times> jsstring) list"

text \<open>
  \<^verbatim>\<open>Response.json(data, { status: s, ...init })\<close>. The caller's \<open>init\<close> is spread after the
  default status and so replaces it. The platform refuses a status outside 200..599 with a
  \<^verbatim>\<open>RangeError\<close> and a body on a null-body status with a \<^verbatim>\<open>TypeError\<close>. The body is kept
  as the value handed over; its serialisation to text is the platform's.
\<close>

definition null_body_status :: "int \<Rightarrow> bool" where
  "null_body_status s = (s \<in> {101, 103, 204, 205, 304})"

definition Response_json :: "jsval \<Rightarrow> int \<Rightarrow> ResponseInit option \<Rightarrow> exn + response" where
  "Response_json data default_status init =
     (let s = (case init of
                 None \<Rightarrow> default_status
               | Some i \<Rightarrow> (case init_status i of None \<Rightarrow> default_status | Some s' \<Rightarrow> s'));
          hs = (case init of None \<Rightarrow> [] | Some i \<Rightarrow> init_headers i)
      in if s < 200 \<or> 599 < s then Inl (OtherError ''RangeError'')
         else if null_body_status s then Inl (OtherError ''TypeError'')
         else Inr \<lparr> status = s, resp_body = JsonBody data, headers = hs \<rparr>)"

section \<open>Response builder: basic responses\<close>

definition httpOk :: "jsval \<Rightarrow> ResponseInit option \<Rightarrow> exn + response" where
  "httpOk data init = Response_json data 200 init"

text \<open>\<^verbatim>\<open>data ?? {}\<close> for an optional argument.\<close>

definition or_empty_object :: "jsval option \<Rightarrow> jsval" where
  "or_empty_object data =
     (case data of
        None \<Rightarrow> JObj []
      | Some JUndefined \<Rightarrow> JObj []
      | Some JNull \<Rightarrow> JObj []
      | Some d \<Rightarrow> d)"

definition httpDeleted :: "jsval option \<Rightarrow> ResponseInit option \<Rightarrow> exn + response" where
  "httpDeleted data init =
     Response_json
       (JObj (spread_into [(''deleted'', JBool True)] (or_empty_object data)))
       200 init"

definition httpCreated :: "jsval \<Rightarrow> ResponseInit option \<Rightarrow> exn + response" where
  "httpCreated data init = Response_json data 201 init"

definition httpError :: "int \<Rightarrow> string \<Rightarrow> exn + response" where
  "httpError st message =
     Response_json (JObj [(''error'', JObj [(''message'', JStr message)])]) st None"

section \<open>Response builder: file download\<close>

text \<open>An ASCII literal as a JavaScript string.\<close>

definition js :: "string \<Rightarrow> jsstring" where
  "js s = map (\<lambda>c. of_nat (of_char c)) s"

subsection \<open>The platform's \<^verbatim>\<open>encodeURIComponent\<close>\<close>

definition is_leading_surrogate :: "16 word \<Rightarrow> bool" where
  "is_leading_surrogate c = (0xD800 \<le> unat c \<and> unat c \<le> 0xDBFF)"

definition is_trailing_surrogate :: "16 word \<Rightarrow> bool" where
  "is_trailing_surrogate c = (0xDC00 \<le> unat c \<and> unat c \<le> 0xDFFF)"

definition UTF16SurrogatePairToCodePoint :: "16 word \<Rightarrow> 16 word \<Rightarrow> nat" where
  "UTF16SurrogatePairToCodePoint lead trail =
     (unat lead - 0xD800) * 0x400 + (unat trail - 0xDC00) + 0x10000"

text \<open>The characters that are never escaped: letters, digits and \<^verbatim>\<open>- _ . ! ~ * ' ( )\<close>.\<close>

definition uri_unescaped :: "16 word \<Rightarrow> bool" where
  "uri_unescaped c =
     (let n = unat c
      in (0x41 \<le> n \<and> n \<le> 0x5A) \<or> (0x61 \<le> n \<and> n \<le> 0x7A) \<or> (0x30 \<le> n \<and> n \<le> 0x39)
         \<or> n \<in> {0x2D, 0x5F, 0x2E, 0x21, 0x7E, 0x2A, 0x27, 0x28, 0x29})"

text \<open>The octets of the UTF-8 encoding of a code point.\<close>

definition utf8_encode :: "nat \<Rightarrow> nat list" where
  "utf8_encode cp =
     (if cp < 0x80 then [cp]
      else if cp < 0x800 then [0xC0 + cp div 0x40, 0x80 + cp mod 0x40]
      else if cp < 0x10000 then
        [0xE0 + cp div 0x1000, 0x80 + (cp div 0x40) mod 0x40, 0x80 + cp mod 0x40]
      else
        [0xF0 + cp div 0x40000, 0x80 + (cp div 0x1000) mod 0x40,
         0x80 + (cp div 0x40) mod 0x40, 0x80 + cp mod 0x40])"

definition hex_digit_upper :: "nat \<Rightarrow> 16 word" where
  "hex_digit_upper d = (if d < 10 then of_nat (0x30 + d) else of_nat (0x41 + (d - 10)))"

text \<open>An octet as \<^verbatim>\<open>%XX\<close> with upper-case digits.\<close>

definition percent_octet :: "nat \<Rightarrow> jsstring" where
  "percent_octet b = [0x25, hex_digit_upper (b div 16), hex_digit_upper (b mod 16)]"

definition then_append :: "jsstring \<Rightarrow> exn + jsstring \<Rightarrow> exn + jsstring" where
  "then_append r rest = (case rest of Inl e \<Rightarrow> Inl e | Inr r' \<Rightarrow> Inr (r @ r'))"

text \<open>
  The loop of \<^verbatim>\<open>encodeURIComponent\<close>: an unescaped code unit is copied; any other is read as
  a code point (a surrogate pair is one code point) and its UTF-8 octets are escaped; an
  unpaired surrogate is a \<^verbatim>\<open>URIError\<close>.
\<close>

fun encodeURIComponent :: "jsstring \<Rightarrow> exn + jsstring" where
  "encodeURIComponent [] = Inr []"
| "encodeURIComponent (c # cs) =
     (if uri_unescaped c then then_append [c] (encodeURIComponent cs)
      else if is_leading_surrogate c then
        (case cs of
           [] \<Rightarrow> Inl (OtherError ''URIError'')
         | d # ds \<Rightarrow>
             if is_trailing_surrogate d
             then then_append
                    (concat (map percent_octet
                       (utf8_encode (UTF16SurrogatePairToCodePoint c d))))
                    (encodeURIComponent ds)
             else Inl (OtherError ''URIError''))
      else if is_trailing_surrogate c then Inl (OtherError ''URIError'')
      else then_append (concat (map percent_octet (utf8_encode (unat c))))
             (encodeURIComponent cs))"

subsection \<open>\<^verbatim>\<open>buildContentDisposition\<close> and \<^verbatim>\<open>httpOkDownload\<close>\<close>

text \<open>\<^verbatim>\<open>Number.prototype.toString(16)\<close> and \<^verbatim>\<open>toUpperCase\<close> on ASCII letters.\<close>

definition hex_digit_lower :: "nat \<Rightarrow> 16 word" where
  "hex_digit_lower d = (if d < 10 then of_nat (0x30 + d) else of_nat (0x61 + (d - 10)))"

fun toString16 :: "nat \<Rightarrow> jsstring" where
  "toString16 n =
     (if n < 16 then [hex_digit_lower n] else toString16 (n div 16) @ [hex_digit_lower (n mod 16)])"

definition toUpperCase :: "jsstring \<Rightarrow> jsstring" where
  "toUpperCase s = map (\<lambda>c. if 0x61 \<le> unat c \<and> unat c \<le> 0x7A then c - 0x20 else c) s"

text \<open>\<^verbatim>\<open>filename.replace(/[/\\"]/g, "_")\<close>.\<close>

definition fallback_name :: "jsstring \<Rightarrow> jsstring" where
  "fallback_name filename =
     map (\<lambda>c. if c = 0x2F \<or> c = 0x5C \<or> c = 0x22 then 0x5F else c) filename"

text \<open>
  \<^verbatim>\<open>.replace(/['()]/g, (c) => "%" + c.charCodeAt(0).toString(16).toUpperCase())\<close> and
  \<^verbatim>\<open>.replace(/\*/g, "%2A")\<close>.
\<close>

definition escape_quote_parens :: "jsstring \<Rightarrow> jsstring" where
  "escape_quote_parens s =
     concat (map (\<lambda>c. if c = 0x27 \<or> c = 0x28 \<or> c = 0x29
                        then 0x25 # toUpperCase (toString16 (unat c)) else [c]) s)"

definition escape_star :: "jsstring \<Rightarrow> jsstring" where
  "escape_star s = concat (map (\<lambda>c. if c = 0x2A then js ''%2A'' else [c]) s)"

definition buildContentDisposition :: "jsstring \<Rightarrow> bool \<Rightarrow> exn + jsstring" where
  "buildContentDisposition filename inline =
     (let type = (if inline then js ''inline'' else js ''attachment'');
          fallback = fallback_name filename
      in case encodeURIComponent filename of
           Inl e \<Rightarrow> Inl e
         | Inr uri \<Rightarrow>
             (let encoded = escape_star (escape_quote_parens uri)
              in Inr (type @ js ''; filename='' @ [0x22] @ fallback @ [0x22]
                        @ js ''; filename*=UTF-8'' @ [0x27, 0x27] @ encoded)))"

text \<open>
  The platform's \<^verbatim>\<open>Headers.set(name, value)\<close>. Header names are kept in lower case. The
  value must be a byte string (no code unit above \<open>0xFF\<close>); leading and trailing
  whitespace is stripped, and a value with a NUL, CR or LF is refused.
\<close>

definition http_whitespace :: "16 word \<Rightarrow> bool" where
  "http_whitespace c = (c = 0x09 \<or> c = 0x0A \<or> c = 0x0D \<or> c = 0x20)"

definition normalize_header_value :: "jsstring \<Rightarrow> jsstring" where
  "normalize_header_value v =
     rev (dropWhile http_whitespace (rev (dropWhile http_whitespace v)))"

fun alist_set :: "(string \<times> 'v) list \<Rightarrow> string \<Rightarrow> 'v \<Rightarrow> (string \<times> 'v) list" where
  "alist_set [] k v = [(k, v)]"
| "alist_set ((k', v') # ps) k v = (if k' = k then (k, v) # ps else (k', v') # alist_set ps k v)"

definition Headers_set ::
  "(string \<times> jsstring) list \<Rightarrow> string \<Rightarrow> jsstring \<Rightarrow> exn + (string \<times> jsstring) list" where
  "Headers_set hs name v =
     (if \<exists>c \<in> set v. 0xFF < unat c then Inl (OtherError ''TypeError'')
      else let v' = normalize_header_value v
           in if \<exists>c \<in> set v'. c = 0x00 \<or> c = 0x0A \<or> c = 0x0D
              then Inl (OtherError ''TypeError'')
              else Inr (alist_set hs name v'))"

record DownloadInit =
  dl_filename :: jsstring
  dl_contentType :: "jsstring option"
  dl_contentLength :: "jsstring option"
  dl_inline :: "bool option"
  dl_cacheControl :: "jsstring option"
  respInit_headers :: "(string \<times> jsstring) list"

text \<open>
  \<^verbatim>\<open>httpOkDownload(body, init)\<close>. \<open>contentLength\<close> is the string \<^verbatim>\<open>String(contentLength)\<close>;
  an empty \<open>cacheControl\<close> is falsy and sets no header. The calls of \<^verbatim>\<open>headers.set\<close> follow
  one another, and the first that throws ends the function.
\<close>

definition httpOkDownload :: "8 word list option \<Rightarrow> DownloadInit \<Rightarrow> exn + response" where
  "httpOkDownload body' init =
     (let contentType' = (case dl_contentType init of
                            None \<Rightarrow> js ''application/octet-stream'' | Some t \<Rightarrow> t);
          inline' = (case dl_inline init of None \<Rightarrow> False | Some i \<Rightarrow> i)
      in case Headers_set (respInit_headers init) ''content-type'' contentType' of
           Inl e \<Rightarrow> Inl e
         | Inr h1 \<Rightarrow>
             (case (case dl_contentLength init of
                      None \<Rightarrow> Inr h1
                    | Some l \<Rightarrow> Headers_set h1 ''content-length'' l) of
                Inl e \<Rightarrow> Inl e
              | Inr h2 \<Rightarrow>
                  (case (case dl_cacheControl init of
                           None \<Rightarrow> Inr h2
                         | Some cc \<Rightarrow> if cc = [] then Inr h2
                                      else Headers_set h2 ''cache-control'' cc) of
                     Inl e \<Rightarrow> Inl e
                   | Inr h3 \<Rightarrow>
                       (case buildContentDisposition (dl_filename init) inline' of
                          Inl e \<Rightarrow> Inl e
                        | Inr disposition \<Rightarrow>
                            (case Headers_set h3 ''content-disposition'' disposition of
                               Inl e \<Rightarrow> Inl e
                             | Inr h4 \<Rightarrow>
                                 Inr \<lparr> status = 200, resp_body = RawBody body',
                                       headers = h4 \<rparr>)))))"

subsection \<open>Reading the extended parameter back\<close>

text \<open>
  The receiving side of \<^verbatim>\<open>filename*=UTF-8''<value>\<close>: the percent-encoded value is turned into
  octets (an escape \<^verbatim>\<open>%XX\<close> is one octet, any other ASCII character stands for itself), the
  octets are read as UTF-8 (strictly: no overlong form, no surrogate, nothing above
  \<open>0x10FFFF\<close>), and the code points become a JavaScript string again.
\<close>

definition unhex :: "16 word \<Rightarrow> nat option" where
  "unhex c =
     (let n = unat c
      in if 0x30 \<le> n \<and> n \<le> 0x39 then Some (n - 0x30)
         else if 0x41 \<le> n \<and> n \<le> 0x46 then Some (n - 0x41 + 10)
         else if 0x61 \<le> n \<and> n \<le> 0x66 then Some (n - 0x61 + 10)
         else None)"

definition cons_option :: "'x \<Rightarrow> 'x list option \<Rightarrow> 'x list option" where
  "cons_option x r = (case r of None \<Rightarrow> None | Some xs \<Rightarrow> Some (x # xs))"

fun percent_octets :: "jsstring \<Rightarrow> nat list option" where
  "percent_octets [] = Some []"
| "percent_octets (c # cs) =
     (if c = 0x25 then
        (case cs of
           h # l # rest \<Rightarrow>
             (case unhex h of
                None \<Rightarrow> None
              | Some x \<Rightarrow>
                  (case unhex l of
                     None \<Rightarrow> None
                   | Some y \<Rightarrow> cons_option (x * 16 + y) (percent_octets rest)))
         | _ \<Rightarrow> None)
      else if unat c < 0x80 then cons_option (unat c) (percent_octets cs)
      else None)"

definition continuation :: "nat \<Rightarrow> bool" where
  "continuation b = (0x80 \<le> b \<and> b < 0xC0)"

fun utf8_decode :: "nat list \<Rightarrow> nat list option" where
  "utf8_decode [] = Some []"
| "utf8_decode (b # bs) =
     (if b < 0x80 then cons_option b (utf8_decode bs)
      else if 0xC0 \<le> b \<and> b < 0xE0 then
        (case bs of
           b1 # rest \<Rightarrow>
             (let cp = (b - 0xC0) * 0x40 + (b1 - 0x80)
              in if continuation b1 \<and> 0x80 \<le> cp then cons_option cp (utf8_decode rest)
                 else None)
         | _ \<Rightarrow> None)
      else if 0xE0 \<le> b \<and> b < 0xF0 then
        (case bs of
           b1 # b2 # rest \<Rightarrow>
             (let cp = (b - 0xE0) * 0x1000 + (b1 - 0x80) * 0x40 + (b2 - 0x80)
              in if continuation b1 \<and> continuation b2 \<and> 0x800 \<le> cp
                    \<and> \<not> (0xD800 \<le> cp \<and> cp \<le> 0xDFFF)
                 then cons_option cp (utf8_decode rest)
                 else None)
         | _ \<Rightarrow> None)
      else if 0xF0 \<le> b \<and> b < 0xF8 then
        (case bs of
           b1 # b2 # b3 # rest \<Rightarrow>
             (let cp = (b - 0xF0) * 0x40000 + (b1 - 0x80) * 0x1000 + (b2 - 0x80) * 0x40
                         + (b3 - 0x80)
              in if continuation b1 \<and> continuation b2 \<and> continuation b3
                    \<and> 0x10000 \<le> cp \<and> cp \<le> 0x10FFFF
                 then cons_option cp (utf8_decode rest)
                 else None)
         | _ \<Rightarrow> None)
      else None)"

definition utf16_encode :: "nat \<Rightarrow> jsstring" where
  "utf16_encode cp =
     (if cp < 0x10000 then [of_nat cp]
      else [of_nat (0xD800 + (cp - 0x10000) div 0x400),
            of_nat (0xDC00 + (cp - 0x10000) mod 0x400)])"

definition decode_ext_value :: "jsstring \<Rightarrow> jsstring option" where
  "decode_ext_value s =
     (case percent_octets s of
        None \<Rightarrow> None
      | Some octets \<Rightarrow>
          (case utf8_decode octets of
             None \<Rightarrow> None
           | Some cps \<Rightarrow> Some (concat (map utf16_encode cps))))"

abbreviation (input) ext_escape :: "jsstring \<Rightarrow> jsstring" where
  "ext_escape e \<equiv> escape_star (escape_quote_parens e)"

text \<open>A Unicode scalar value: a code point that is not a surrogate.\<close>

definition scalar_value :: "nat \<Rightarrow> bool" where
  "scalar_value cp = (cp < 0xD800 \<or> (0xE000 \<le> cp \<and> cp < 0x110000))"

text \<open>The code points that a string spells, a surrogate pair being one code point.\<close>

fun code_points :: "jsstring \<Rightarrow> nat list" where
  "code_points [] = []"
| "code_points (c # cs) =
     (if is_leading_surrogate c then
        (case cs of
           [] \<Rightarrow> [unat c]
         | d # ds \<Rightarrow>
             if is_trailing_surrogate d
             then UTF16SurrogatePairToCodePoint c d # code_points ds
             else unat c # code_points cs)
      else unat c # code_points cs)"

text \<open>A string without unpaired surrogates.\<close>

fun well_formed :: "jsstring \<Rightarrow> bool" where
  "well_formed [] = True"
| "well_formed (c # cs) =
     (if is_leading_surrogate c then
        (case cs of [] \<Rightarrow> False | d # ds \<Rightarrow> is_trailing_surrogate d \<and> well_formed ds)
      else \<not> is_trailing_surrogate c \<and> well_formed cs)"

section \<open>Schema validator adapter\<close>

text \<open>
  A schema is the validation engine's \<^verbatim>\<open>safeParse\<close>: it accepts a value with the parsed
  data, rejects it with a list of issues, or (as any call may) throws.
\<close>

datatype 'o parse_result = Success 'o | Failure "jsval list" | Throws exn

type_synonym ('i, 'o) ZodType = "'i \<Rightarrow> 'o parse_result"

datatype kind = Parameters | Query | Body

definition kind_name :: "kind \<Rightarrow> string" where
  "kind_name k = (case k of Parameters \<Rightarrow> ''parameters'' | Query \<Rightarrow> ''query'' | Body \<Rightarrow> ''body'')"

text \<open>
  How a step of the route handler ends: with a value to go on with, with a \<^verbatim>\<open>return\<close> of a
  response, or with a thrown exception.
\<close>

datatype 'a flow = Continue 'a | Respond response | Raise exn

definition returning :: "exn + response \<Rightarrow> 'a flow" where
  "returning r = (case r of Inl e \<Rightarrow> Raise e | Inr resp \<Rightarrow> Respond resp)"

definition validateWithSchema :: "('i, 'o) ZodType \<Rightarrow> 'i \<Rightarrow> kind \<Rightarrow> 'o flow" where
  "validateWithSchema schema v k =
     (case schema v of
        Throws e \<Rightarrow> Raise e
      | Success data \<Rightarrow> Continue data
      | Failure issues \<Rightarrow>
          returning (Response_json
            (JObj [(''error'', JStr (''Invalid '' @ kind_name k)), (''issues'', JArr issues)])
            400 None))"

section \<open>Guard engine\<close>

record request =
  searchParams :: "(string \<times> string) list"
  content_type :: "string option"
  json :: "exn + jsval"
  formData :: "exn + (string \<times> jsval) list"

text \<open>
  A registered permission check is a function value: its declared parameter count
  (\<^verbatim>\<open>permission.length\<close>) and what a call does. The second argument of a call is \<open>None\<close>
  when it is not passed or is \<^verbatim>\<open>undefined\<close>. The checks are registered in an object, one
  per action name.
\<close>

record ('r, 'a) permission =
  plength :: nat
  pcall :: "'a \<Rightarrow> 'r option \<Rightarrow> exn + bool"

record ('r, 'a) PermissionHandler =
  handler :: "'r option \<Rightarrow> exn + bool"
  needResource :: bool
  ph_authData :: 'a

record ('t, 'r, 'a) Guard =
  permissionHandlerGenerator :: "'t \<Rightarrow> request \<Rightarrow> exn + ('r, 'a) PermissionHandler"
  action :: 't

record ('t, 'r, 'a) InitGuardOptions =
  guardChecks :: "('t \<times> ('r, 'a) permission) list"
  auth :: "request \<Rightarrow> exn + 'a"

text \<open>The \<^verbatim>\<open>handler\<close> closure of \<^verbatim>\<open>_permissionHandlerGenerator\<close>.\<close>

definition guard_handler :: "('r, 'a) permission \<Rightarrow> 'a \<Rightarrow> 'r option \<Rightarrow> exn + bool" where
  "guard_handler permission' authData' resource =
     (if plength permission' = 1 then pcall permission' authData' None
      else if plength permission' = 2 then pcall permission' authData' resource
      else Inr False)"

text \<open>
  \<^verbatim>\<open>_permissionHandlerGenerator(action, req)\<close>. Reading \<^verbatim>\<open>.length\<close> of a check that is not
  registered is a \<^verbatim>\<open>TypeError\<close>.
\<close>

definition permissionHandlerGenerator_of ::
  "('t, 'r, 'a) InitGuardOptions \<Rightarrow> 't \<Rightarrow> request \<Rightarrow> exn + ('r, 'a) PermissionHandler" where
  "permissionHandlerGenerator_of options act rq =
     (case auth options rq of
        Inl e \<Rightarrow> Inl e
      | Inr authData' \<Rightarrow>
          (case map_of (guardChecks options) act of
             None \<Rightarrow> Inl (OtherError ''TypeError'')
           | Some permission' \<Rightarrow>
               Inr \<lparr> handler = guard_handler permission' authData',
                     needResource = (plength permission' = 2),
                     ph_authData = authData' \<rparr>))"

text \<open>\<^verbatim>\<open>initGuards(options)\<close>: one guard per registered action, all with the same generator.\<close>

definition initGuards ::
  "('t, 'r, 'a) InitGuardOptions \<Rightarrow> ('t \<times> ('t, 'r, 'a) Guard) list" where
  "initGuards options =
     map (\<lambda>act. (act, \<lparr> permissionHandlerGenerator = permissionHandlerGenerator_of options,
                         action = act \<rparr>))
       (remdups (map fst (guardChecks options)))"

text \<open>
  Using a guard of \<open>initGuards\<close>: \<^verbatim>\<open>guards[act].permissionHandlerGenerator(guards[act].action,
  req)\<close>, then a call of the produced \<^verbatim>\<open>handler\<close>.
\<close>

definition invoke_produced_handler ::
  "('t, 'r, 'a) InitGuardOptions \<Rightarrow> 't \<Rightarrow> request \<Rightarrow> 'r option \<Rightarrow> exn + bool" where
  "invoke_produced_handler options act rq resource =
     (case map_of (initGuards options) act of
        None \<Rightarrow> Inl (OtherError ''TypeError'')
      | Some g \<Rightarrow>
          (case permissionHandlerGenerator g (action g) rq of
             Inl e \<Rightarrow> Inl e
           | Inr permissionHandler \<Rightarrow> handler permissionHandler resource))"

section \<open>Route handler pipeline\<close>

record Schemas =
  paramsSchema :: "(jsval, jsval) ZodType option"
  querySchema :: "(jsval, jsval) ZodType option"
  bodySchema :: "(jsval, jsval) ZodType option"

text \<open>
  The route context: \<^verbatim>\<open>ctx.params\<close> is missing, or a promise that resolves or rejects.
\<close>

record RouteContext =
  route_params :: "(exn + jsval) option"

record ('r, 'a) fn_ctx =
  req :: request
  params :: jsval
  query :: jsval
  body :: jsval
  handleResourcePermission :: "'r \<Rightarrow> exn + unit"
  authData :: "'a option"

text \<open>
  What the handler does, in order, is recorded next to its result: the calls it makes to
  its collaborators.
\<close>

datatype event =
    EvGenerate
  | EvCheck
  | EvAwaitParams
  | EvValidate kind
  | EvReadForm
  | EvReadJson
  | EvUserLogic
  | EvLog exn

type_synonym 'a traced = "event list \<times> 'a"

definition bind_flow :: "'a flow traced \<Rightarrow> ('a \<Rightarrow> 'b flow traced) \<Rightarrow> 'b flow traced" where
  "bind_flow m f =
     (case m of
        (t, Continue a) \<Rightarrow> (case f a of (t', r) \<Rightarrow> (t @ t', r))
      | (t, Respond r) \<Rightarrow> (t, Respond r)
      | (t, Raise e) \<Rightarrow> (t, Raise e))"

fun str_startsWith :: "string \<Rightarrow> string \<Rightarrow> bool" where
  "str_startsWith s [] = True"
| "str_startsWith [] (p # ps) = False"
| "str_startsWith (c # cs) (p # ps) = (c = p \<and> str_startsWith cs ps)"

fun str_includes :: "string \<Rightarrow> string \<Rightarrow> bool" where
  "str_includes [] p = str_startsWith [] p"
| "str_includes (c # cs) p = (str_startsWith (c # cs) p \<or> str_includes cs p)"

definition formDataToObject :: "(string \<times> jsval) list \<Rightarrow> jsval" where
  "formDataToObject fd =
     JObj (fold (\<lambda>key obj.
                   let all = map snd (filter (\<lambda>(k, v). k = key) fd)
                   in obj_set obj key
                        (if length all > 1 then JArr all
                         else (case all of [] \<Rightarrow> JUndefined | x # _ \<Rightarrow> x)))
             (map fst fd) [])"

text \<open>
  The guard block at the head of the handler. It stands before the \<^verbatim>\<open>try\<close>: what it throws
  leaves the handler. It yields the \<^verbatim>\<open>handleResourcePermission\<close> callback and the
  authentication data for the user logic.
\<close>

definition noop_permission :: "'r \<Rightarrow> exn + unit" where
  "noop_permission resource = Inr ()"

definition resource_permission :: "('r, 'a) PermissionHandler \<Rightarrow> 'r \<Rightarrow> exn + unit" where
  "resource_permission permissionHandler resource =
     (case handler permissionHandler (Some resource) of
        Inl e \<Rightarrow> Inl e
      | Inr authorized \<Rightarrow> if \<not> authorized then Inl (Forbidden None) else Inr ())"

definition guard_block ::
  "('t, 'r, 'a) Guard option \<Rightarrow> request \<Rightarrow> (('r \<Rightarrow> exn + unit) \<times> 'a option) flow traced" where
  "guard_block guard rq =
     (case guard of
        None \<Rightarrow> ([], Continue (noop_permission, None))
      | Some g \<Rightarrow>
          (case permissionHandlerGenerator g (action g) rq of
             Inl e \<Rightarrow> ([EvGenerate], Raise e)
           | Inr permissionHandler \<Rightarrow>
               if \<not> needResource permissionHandler then
                 (case handler permissionHandler None of
                    Inl e \<Rightarrow> ([EvGenerate, EvCheck], Raise e)
                  | Inr authorized \<Rightarrow>
                      if \<not> authorized
                      then ([EvGenerate, EvCheck], returning (httpError 403 ''Forbidden''))
                      else ([EvGenerate, EvCheck],
                            Continue (noop_permission, Some (ph_authData permissionHandler))))
               else ([EvGenerate],
                     Continue (resource_permission permissionHandler,
                               Some (ph_authData permissionHandler)))))"

text \<open>Step 2: the route parameters.\<close>

definition params_step :: "Schemas option \<Rightarrow> RouteContext \<Rightarrow> jsval flow traced" where
  "params_step schemas ctx =
     (case route_params ctx of
        Some (Inl e) \<Rightarrow> ([EvAwaitParams], Raise e)
      | awaited \<Rightarrow>
          (let invalidatedParams = (case awaited of Some (Inr v) \<Rightarrow> v | _ \<Rightarrow> JUndefined);
               paramsValue = (case invalidatedParams of
                                JUndefined \<Rightarrow> JObj [] | JNull \<Rightarrow> JObj [] | v \<Rightarrow> v)
           in case (case schemas of None \<Rightarrow> None | Some s \<Rightarrow> paramsSchema s) of
                None \<Rightarrow> ([EvAwaitParams], Continue paramsValue)
              | Some schema \<Rightarrow>
                  ([EvAwaitParams, EvValidate Parameters],
                   validateWithSchema schema invalidatedParams Parameters)))"

text \<open>Step 3: the query string.\<close>

text \<open>\<^verbatim>\<open>Object.fromEntries(new URL(req.url).searchParams.entries())\<close>.\<close>

definition raw_query :: "request \<Rightarrow> jsval" where
  "raw_query rq = JObj (fromEntries (map (\<lambda>(k, x). (k, JStr x)) (searchParams rq)))"

definition query_step :: "Schemas option \<Rightarrow> request \<Rightarrow> jsval flow traced" where
  "query_step schemas rq =
     (case (case schemas of None \<Rightarrow> None | Some s \<Rightarrow> querySchema s) of
        None \<Rightarrow> ([], Continue (JObj []))
      | Some schema \<Rightarrow>
          (let rawQuery = raw_query rq
           in ([EvValidate Query], validateWithSchema schema rawQuery Query)))"

text \<open>Step 4: the body, decoded by content type inside its own \<^verbatim>\<open>try\<close>, then validated.\<close>

text \<open>\<^verbatim>\<open>req.headers.get("content-type") ?? ""\<close>.\<close>

definition contentType_of :: "request \<Rightarrow> string" where
  "contentType_of rq = (case content_type rq of None \<Rightarrow> [] | Some c \<Rightarrow> c)"

definition decode_body :: "request \<Rightarrow> jsval flow traced" where
  "decode_body rq =
     (let contentType = contentType_of rq;
          attempt =
            (if str_startsWith contentType ''multipart/form-data'' then
               ([EvReadForm],
                case formData rq of Inl e \<Rightarrow> Raise e | Inr fd \<Rightarrow> Continue (formDataToObject fd))
             else if str_includes contentType ''application/json'' \<or> contentType = [] then
               ([EvReadJson],
                case json rq of Inl e \<Rightarrow> Raise e | Inr v \<Rightarrow> Continue v)
             else
               ([], returning (Response_json
                      (JObj [(''error'', JStr (''Unsupported Content-Type: '' @ contentType))])
                      415 None)))
      in case attempt of
           (t, Raise e) \<Rightarrow>
             (t, returning (Response_json (JObj [(''error'', JStr ''Invalid request body'')])
                    400 None))
         | other \<Rightarrow> other)"

definition body_step :: "Schemas option \<Rightarrow> request \<Rightarrow> jsval flow traced" where
  "body_step schemas rq =
     (case (case schemas of None \<Rightarrow> None | Some s \<Rightarrow> bodySchema s) of
        None \<Rightarrow> ([], Continue JUndefined)
      | Some schema \<Rightarrow>
          bind_flow (decode_body rq)
            (\<lambda>rawBody. ([EvValidate Body], validateWithSchema schema rawBody Body)))"

text \<open>The body of the outer \<^verbatim>\<open>try\<close>: steps 2 to 5.\<close>

definition try_block ::
  "(('r, 'a) fn_ctx \<Rightarrow> exn + response) \<Rightarrow> Schemas option \<Rightarrow> request \<Rightarrow> RouteContext
     \<Rightarrow> ('r \<Rightarrow> exn + unit) \<Rightarrow> 'a option \<Rightarrow> response flow traced" where
  "try_block fn schemas rq ctx hrp ad =
     bind_flow (params_step schemas ctx) (\<lambda>paramsValue.
     bind_flow (query_step schemas rq) (\<lambda>queryValue.
     bind_flow (body_step schemas rq) (\<lambda>bodyValue.
       ([EvUserLogic],
        returning (fn \<lparr> req = rq, params = paramsValue, query = queryValue,
                        body = bodyValue, handleResourcePermission = hrp,
                        authData = ad \<rparr>)))))"

text \<open>The \<^verbatim>\<open>catch\<close> of the outer \<^verbatim>\<open>try\<close>.\<close>

definition catch_block :: "exn \<Rightarrow> (exn + response) traced" where
  "catch_block e =
     (case e of
        ZodError issues \<Rightarrow>
          ([], Response_json
                 (JObj [(''error'', JStr ''Validation error''), (''issues'', JArr issues)])
                 400 None)
      | HttpError st msg \<Rightarrow> ([], httpError st msg)
      | _ \<Rightarrow> ([EvLog e], httpError 500 ''Internal server error''))"

text \<open>
  The handler that \<^verbatim>\<open>handleRoute(fn, schemas, guard)\<close> returns. Its result is the response
  it resolves to (\<open>Inr\<close>) or the exception it rejects with (\<open>Inl\<close>).
\<close>

definition route_handler ::
  "(('r, 'a) fn_ctx \<Rightarrow> exn + response) \<Rightarrow> Schemas option \<Rightarrow> ('t, 'r, 'a) Guard option
     \<Rightarrow> request \<Rightarrow> RouteContext \<Rightarrow> (exn + response) traced" where
  "route_handler fn schemas guard rq ctx =
     (case guard_block guard rq of
        (t, Raise e) \<Rightarrow> (t, Inl e)
      | (t, Respond r) \<Rightarrow> (t, Inr r)
      | (t, Continue (hrp, ad)) \<Rightarrow>
          (case try_block fn schemas rq ctx hrp ad of
             (t', Raise e) \<Rightarrow> (case catch_block e of (t'', r) \<Rightarrow> (t @ t' @ t'', r))
           | (t', Respond r) \<Rightarrow> (t @ t', Inr r)
           | (t', Continue r) \<Rightarrow> (t @ t', Inr r)))"

record ('t, 'r, 'a) RouteHandlerWithMetadata =
  call :: "request \<Rightarrow> RouteContext \<Rightarrow> (exn + response) traced"
  meta_schemas :: "Schemas option"
  meta_guard :: "('t, 'r, 'a) Guard option"

definition handleRoute ::
  "(('r, 'a) fn_ctx \<Rightarrow> exn + response) \<Rightarrow> Schemas option \<Rightarrow> ('t, 'r, 'a) Guard option
     \<Rightarrow> ('t, 'r, 'a) RouteHandlerWithMetadata" where
  "handleRoute fn schemas guard =
     \<lparr> call = route_handler fn schemas guard, meta_schemas = schemas, meta_guard = guard \<rparr>"

section \<open>Default query schema\<close>

text \<open>
  The data that \<^verbatim>\<open>QuerySchema\<close> infers: \<^verbatim>\<open>page\<close>, \<^verbatim>\<open>limit\<close> and the two optional
  timestamps, \<open>None\<close> when the field is \<^verbatim>\<open>undefined\<close>.
\<close>

record QueryData =
  q_page :: int
  q_limit :: int
  updated_after :: "string option"
  updated_before :: "string option"

text \<open>
  Inside the validation engine the parse of a schema ends in one of three states: \<^emph>\<open>valid\<close>
  with the parsed data, \<^emph>\<open>dirty\<close> with the data and the issues reported on it, or \<^emph>\<open>aborted\<close>
  with the issues alone; or it throws. The issues are listed in the order in which the
  parse reports them.
\<close>

datatype 'o parsed = Valid 'o | Dirty 'o "jsval list" | Aborted "jsval list" | Thrown exn

type_synonym ('i, 'o) ZodSchema = "'i \<Rightarrow> 'o parsed"

definition issues_in :: "'o parsed \<Rightarrow> jsval list" where
  "issues_in r = (case r of Valid d \<Rightarrow> [] | Dirty d issues \<Rightarrow> issues
                  | Aborted issues \<Rightarrow> issues | Thrown e \<Rightarrow> [])"

definition value_in :: "'o parsed \<Rightarrow> 'o option" where
  "value_in r = (case r of Valid d \<Rightarrow> Some d | Dirty d issues \<Rightarrow> Some d
                 | Aborted issues \<Rightarrow> None | Thrown e \<Rightarrow> None)"

definition isDirty :: "'o parsed \<Rightarrow> bool" where
  "isDirty r = (case r of Dirty d issues \<Rightarrow> True | _ \<Rightarrow> False)"

text \<open>
  \<^verbatim>\<open>schema.safeParse(value)\<close>: success for a valid parse only, and the issues of the parse
  otherwise; the engine throws when a parse that is not valid reported no issue.
\<close>

definition handleResult :: "jsval list \<Rightarrow> 'o parse_result" where
  "handleResult issues = (if issues = [] then Throws (OtherError ''Error'') else Failure issues)"

definition safeParse :: "('i, 'o) ZodSchema \<Rightarrow> ('i, 'o) ZodType" where
  "safeParse schema v =
     (case schema v of
        Valid data \<Rightarrow> Success data
      | Dirty data issues \<Rightarrow> handleResult issues
      | Aborted issues \<Rightarrow> handleResult issues
      | Thrown e \<Rightarrow> Throws e)"

text \<open>
  The combinators of the validation engine that the default query schema is built with.
  \<^verbatim>\<open>schema.refine(check, {message})\<close> parses with the schema and gives up when that parse
  is aborted; otherwise it runs the check on the data, also on dirty data, and reports an
  issue with the message when the check fails, which leaves the parse dirty.
  \<^verbatim>\<open>left.and(right)\<close> parses the value with both schemas: the result is aborted when either
  parse is, or when the two values do not merge (the merge is the engine's, a parameter),
  and it is dirty when either parse is.
\<close>

definition custom_issue :: "string \<Rightarrow> jsval" where
  "custom_issue message =
     JObj [(''code'', JStr ''custom''), (''message'', JStr message), (''path'', JArr [])]"

definition refine :: "('i, 'o) ZodSchema \<Rightarrow> ('o \<Rightarrow> bool) \<Rightarrow> string \<Rightarrow> ('i, 'o) ZodSchema" where
  "refine schema check message v =
     (case schema v of
        Thrown e \<Rightarrow> Thrown e
      | Aborted issues \<Rightarrow> Aborted issues
      | Dirty data issues \<Rightarrow>
          if check data then Dirty data issues
          else Dirty data (issues @ [custom_issue message])
      | Valid data \<Rightarrow>
          if check data then Valid data else Dirty data [custom_issue message])"

definition issues_of :: "'o parse_result \<Rightarrow> jsval list" where
  "issues_of r = (case r of Failure issues \<Rightarrow> issues | _ \<Rightarrow> [])"

definition intersection_issue :: jsval where
  "intersection_issue =
     JObj [(''code'', JStr ''invalid_intersection_types''), (''path'', JArr [])]"

definition handleParsed ::
  "('a \<Rightarrow> 'b \<Rightarrow> 'c option) \<Rightarrow> 'a parsed \<Rightarrow> 'b parsed \<Rightarrow> 'c parsed" where
  "handleParsed mergeValues parsedLeft parsedRight =
     (let issues = issues_in parsedLeft @ issues_in parsedRight
      in case value_in parsedLeft of
           None \<Rightarrow> Aborted issues
         | Some a \<Rightarrow>
             (case value_in parsedRight of
                None \<Rightarrow> Aborted issues
              | Some b \<Rightarrow>
                  (case mergeValues a b of
                     None \<Rightarrow> Aborted (issues @ [intersection_issue])
                   | Some c \<Rightarrow>
                       if isDirty parsedLeft \<or> isDirty parsedRight then Dirty c issues
                       else Valid c)))"

definition zod_and ::
  "('i, 'a) ZodSchema \<Rightarrow> ('i, 'b) ZodSchema \<Rightarrow> ('a \<Rightarrow> 'b \<Rightarrow> 'c option)
     \<Rightarrow> ('i, 'c) ZodSchema" where
  "zod_and left right mergeValues v =
     (case left v of
        Thrown e \<Rightarrow> Thrown e
      | parsedLeft \<Rightarrow>
          (case right v of
             Thrown e \<Rightarrow> Thrown e
           | parsedRight \<Rightarrow> handleParsed mergeValues parsedLeft parsedRight))"

text \<open>
  JavaScript truthiness of an optional string (\<^verbatim>\<open>undefined\<close> and the empty string are
  falsy), and \<^verbatim>\<open><=\<close> on two dates: it compares their time values and is false when either
  is an invalid date (\<open>None\<close>).
\<close>

definition truthy :: "string option \<Rightarrow> bool" where
  "truthy s = (case s of None \<Rightarrow> False | Some cs \<Rightarrow> cs \<noteq> [])"

definition date_le :: "int option \<Rightarrow> int option \<Rightarrow> bool" where
  "date_le d d' = (case d of None \<Rightarrow> False
                   | Some t \<Rightarrow> (case d' of None \<Rightarrow> False | Some t' \<Rightarrow> t \<le> t'))"

text \<open>
  The check of \<^verbatim>\<open>DefaultQuerySchemaRefined\<close>. \<open>Date\<close> is the platform's \<^verbatim>\<open>new Date(string)\<close>,
  a parameter: the time value in milliseconds, or \<open>None\<close> for an invalid date. It is
  applied to a field only when both fields are truthy, as the \<^verbatim>\<open>||\<close> chain does.
\<close>

definition updated_order_check :: "(string \<Rightarrow> int option) \<Rightarrow> QueryData \<Rightarrow> bool" where
  "updated_order_check Date q =
     (\<not> truthy (updated_after q)
      \<or> \<not> truthy (updated_before q)
      \<or> date_le (Date (case updated_after q of Some a \<Rightarrow> a | None \<Rightarrow> []))
                 (Date (case updated_before q of Some b \<Rightarrow> b | None \<Rightarrow> [])))"

text \<open>
  \<open>QuerySchema\<close>, the object schema of the four fields, is the engine's parser of that
  object: a parameter of the schemas derived from it. A route is given the schema that
  \<open>withDefaultQuerySchema\<close> returns and reads it through \<open>safeParse\<close>.
\<close>

text \<open>The message \<^verbatim>\<open>'updated_after' must be <= 'updated_before'\<close>.\<close>

definition order_message :: string where
  "order_message =
     CHR 0x27 # ''updated_after'' @ CHR 0x27 # '' must be <= '' @ CHR 0x27 # ''updated_before''
       @ [CHR 0x27]"

definition DefaultQuerySchemaRefined ::
  "(string \<Rightarrow> int option) \<Rightarrow> ('i, QueryData) ZodSchema \<Rightarrow> ('i, QueryData) ZodSchema" where
  "DefaultQuerySchemaRefined Date QuerySchema =
     refine QuerySchema (updated_order_check Date) order_message"

definition withDefaultQuerySchema ::
  "(string \<Rightarrow> int option) \<Rightarrow> ('i, QueryData) ZodSchema \<Rightarrow> ('a \<Rightarrow> QueryData \<Rightarrow> 'c option)
     \<Rightarrow> ('i, 'a) ZodSchema \<Rightarrow> ('i, 'c) ZodSchema" where
  "withDefaultQuerySchema Date QuerySchema mergeValues schema =
     zod_and schema (DefaultQuerySchemaRefined Date QuerySchema) mergeValues"

section \<open>Sample inputs\<close>

text \<open>Concrete requests, guards and routes on which the theorems below are instantiated.\<close>

definition sample_request :: request where
  "sample_request = \<lparr> searchParams = [], content_type = None,
                       json = Inr JNull, formData = Inr [] \<rparr>"

definition sample_options :: "(string, string, bool) InitGuardOptions" where
  "sample_options =
     \<lparr> guardChecks =
         [(''adminOnly'', \<lparr> plength = 1, pcall = (\<lambda>isAdmin resource. Inr isAdmin) \<rparr>),
          (''canEdit'', \<lparr> plength = 2,
              pcall = (\<lambda>isAdmin resource.
                 case resource of None \<Rightarrow> Inl (OtherError ''TypeError'')
                                | Some owner \<Rightarrow> Inr (isAdmin \<or> owner = ''me'')) \<rparr>),
          (''anyone'', \<lparr> plength = 2, pcall = (\<lambda>isAdmin resource. Inr True) \<rparr>)],
       auth = (\<lambda>rq. Inr True) \<rparr>"

definition visitor_options :: "(string, string, bool) InitGuardOptions" where
  "visitor_options = sample_options \<lparr> auth := (\<lambda>rq. Inr False) \<rparr>"

definition failing_auth_options :: "(string, string, bool) InitGuardOptions" where
  "failing_auth_options = sample_options \<lparr> auth := (\<lambda>rq. Inl (Unauthorized None)) \<rparr>"

text \<open>Options whose basic check throws \<^verbatim>\<open>Forbidden\<close> itself instead of returning false.\<close>

definition strict_options :: "(string, string, bool) InitGuardOptions" where
  "strict_options =
     \<lparr> guardChecks =
         [(''adminOnly'', \<lparr> plength = 1,
              pcall = (\<lambda>isAdmin resource.
                 if isAdmin then Inr True else Inl (Forbidden None)) \<rparr>)],
       auth = (\<lambda>rq. Inr False) \<rparr>"

text \<open>The guard that \<open>initGuards\<close> builds for an action.\<close>

definition guard_of :: "('t, 'r, 'a) InitGuardOptions \<Rightarrow> 't \<Rightarrow> ('t, 'r, 'a) Guard" where
  "guard_of options act =
     \<lparr> permissionHandlerGenerator = permissionHandlerGenerator_of options, action = act \<rparr>"

definition sample_logic :: "(string, bool) fn_ctx \<Rightarrow> exn + response" where
  "sample_logic c = httpOk (JObj [(''ok'', JBool True)]) None"

definition sample_ctx :: RouteContext where
  "sample_ctx = \<lparr> route_params = None \<rparr>"

definition accept_all :: Schemas where
  "accept_all = \<lparr> paramsSchema = Some (\<lambda>v. Success v),
                   querySchema = Some (\<lambda>v. Success v),
                   bodySchema = Some (\<lambda>v. Success v) \<rparr>"

definition forbidden_response :: response where
  "forbidden_response =
     \<lparr> status = 403,
       resp_body = JsonBody (JObj [(''error'', JObj [(''message'', JStr ''Forbidden'')])]),
       headers = [] \<rparr>"

text \<open>User logic that loads the resource \<open>doc\<close> and checks the permission on it first.\<close>

definition guarded_logic :: "(string, bool) fn_ctx \<Rightarrow> exn + response" where
  "guarded_logic c =
     (case handleResourcePermission c ''doc'' of
        Inl e \<Rightarrow> Inl e
      | Inr u \<Rightarrow> sample_logic c)"

definition invalid_body_response :: response where
  "invalid_body_response =
     \<lparr> status = 400,
       resp_body = JsonBody (JObj [(''error'', JStr ''Invalid request body'')]),
       headers = [] \<rparr>"

definition unsupported_response :: "string \<Rightarrow> response" where
  "unsupported_response contentType =
     \<lparr> status = 415,
       resp_body = JsonBody (JObj [(''error'', JStr (''Unsupported Content-Type: '' @ contentType))]),
       headers = [] \<rparr>"

text \<open>User logic that answers with the body it was given.\<close>

definition echo_logic :: "(string, bool) fn_ctx \<Rightarrow> exn + response" where
  "echo_logic c = httpOk (body c) None"

definition json_and_form_request :: "string option \<Rightarrow> request" where
  "json_and_form_request ct =
     \<lparr> searchParams = [], content_type = ct,
       json = Inr (JObj [(''from'', JStr ''json'')]),
       formData = Inr [(''from'', JStr ''form'')] \<rparr>"

definition malformed_request :: "string option \<Rightarrow> request" where
  "malformed_request ct =
     \<lparr> searchParams = [], content_type = ct,
       json = Inl (OtherError ''SyntaxError''),
       formData = Inl (OtherError ''TypeError'') \<rparr>"


text \<open>
  A stand-in for the platform's date parser on two timestamps, and one for the engine's
  object parser: it takes the two timestamp fields from the raw query and reports an issue
  on a field that is not one of the two timestamps, which leaves the parse dirty.
\<close>

definition sample_Date :: "string \<Rightarrow> int option" where
  "sample_Date s =
     (if s = ''2024-01-01T00:00:00Z'' then Some 1704067200000
      else if s = ''2024-01-02T00:00:00Z'' then Some 1704153600000
      else None)"

definition string_field :: "(string \<times> jsval) list \<Rightarrow> string \<Rightarrow> string option" where
  "string_field ps k = (case map_of ps k of Some (JStr s) \<Rightarrow> Some s | _ \<Rightarrow> None)"

definition datetime_issues :: "string \<Rightarrow> string option \<Rightarrow> jsval list" where
  "datetime_issues k field =
     (case field of
        None \<Rightarrow> []
      | Some s \<Rightarrow>
          if sample_Date s = None
          then [JObj [(''code'', JStr ''invalid_string''), (''path'', JArr [JStr k])]]
          else [])"

definition sample_QuerySchema :: "(jsval, QueryData) ZodSchema" where
  "sample_QuerySchema v =
     (case v of
        JObj ps \<Rightarrow>
          (let q = \<lparr> q_page = 1, q_limit = 25,
                     updated_after = string_field ps ''updated_after'',
                     updated_before = string_field ps ''updated_before'' \<rparr>;
               issues = datetime_issues ''updated_after'' (updated_after q)
                        @ datetime_issues ''updated_before'' (updated_before q)
           in if issues = [] then Valid q else Dirty q issues)
      | _ \<Rightarrow> Aborted [JObj [(''code'', JStr ''invalid_type''), (''path'', JArr [])]])"

definition sample_extended_schema :: "(jsval, jsval) ZodType" where
  "sample_extended_schema =
     safeParse
       (withDefaultQuerySchema sample_Date sample_QuerySchema (\<lambda>a q. Some a) (\<lambda>v. Valid v))"

definition updated_request :: "string \<Rightarrow> string \<Rightarrow> request" where
  "updated_request after before =
     \<lparr> searchParams = [(''updated_after'', after), (''updated_before'', before)],
       content_type = None, json = Inr JNull, formData = Inr [] \<rparr>"


text \<open>A download of a file by its name, everything else left to the defaults.\<close>

definition sample_download :: "jsstring \<Rightarrow> DownloadInit" where
  "sample_download fname =
     \<lparr> dl_filename = fname, dl_contentType = None, dl_contentLength = None,
       dl_inline = None, dl_cacheControl = None, respInit_headers = [] \<rparr>"

text \<open>
  The name \<^verbatim>\<open>U+65E5 / ' * U+1F600 U+00E9\<close>: a CJK character, a slash, the two marks that
  the standard encoding leaves alone, a surrogate pair and a Latin-1 letter.
\<close>

definition mixed_name :: jsstring where
  "mixed_name = [0x65E5, 0x2F, 0x27, 0x2A, 0xD83D, 0xDE00, 0xE9]"

section \<open>Properties of the pagination helpers\<close>

lemma bit_length_0 [simp]: "bit_length 0 = 0"
  by (simp add: bit_length.simps)

lemma bit_length_1 [simp]: "bit_length 1 = 1" "bit_length (Suc 0) = 1"
  by (simp_all add: bit_length.simps)

lemma bit_length_Bit0 [simp]: "bit_length (numeral (num.Bit0 n)) = Suc (bit_length (numeral n))"
proof -
  have "numeral (num.Bit0 n) div (2::nat) = numeral n" by simp
  then show ?thesis by (subst bit_length.simps) simp
qed

lemma bit_length_Bit1 [simp]: "bit_length (numeral (num.Bit1 n)) = Suc (bit_length (numeral n))"
proof -
  have "numeral (num.Bit1 n) div (2::nat) = numeral n" by simp
  then show ?thesis by (subst bit_length.simps) simp
qed


lemma bit_length_bounds:
  assumes "0 < n"
  shows "2 ^ (bit_length n - 1) \<le> n \<and> n < 2 ^ bit_length n"
  using assms
proof (induction n rule: bit_length.induct)
  case (1 n)
  show ?case
  proof (cases "n div 2 = 0")
    case True
    with "1.prems" have "n = 1" by (simp add: div_eq_0_iff)
    then show ?thesis by (simp add: bit_length.simps)
  next
    case False
    then have p: "0 < n div 2" by simp
    from "1.prems" have nz: "n \<noteq> 0" by simp
    from "1.IH" [OF nz p]
    have lo: "2 ^ (bit_length (n div 2) - 1) \<le> n div 2"
      and hi: "n div 2 < 2 ^ bit_length (n div 2)"
      by simp_all
    have bl: "bit_length n = Suc (bit_length (n div 2))"
      using nz by (subst bit_length.simps) simp
    have pos: "0 < bit_length (n div 2)"
      using p by (subst bit_length.simps) simp
    then have "(2::nat) ^ bit_length (n div 2) = 2 * 2 ^ (bit_length (n div 2) - 1)"
      by (cases "bit_length (n div 2)") simp_all
    with lo have "(2::nat) ^ bit_length (n div 2) \<le> 2 * (n div 2)" by simp
    also have "\<dots> \<le> n" by simp
    finally have 1: "2 ^ (bit_length n - 1) \<le> n" by (simp add: bl)
    have "n < 2 * (n div 2 + 1)" by arith
    also have "\<dots> \<le> 2 * 2 ^ bit_length (n div 2)" using hi by simp
    finally have 2: "n < 2 ^ bit_length n" by (simp add: bl)
    from 1 2 show ?thesis ..
  qed
qed

lemma bit_length_mono:
  assumes "m \<le> n"
  shows "bit_length m \<le> bit_length n"
proof (cases "m = 0")
  case True
  then show ?thesis by (simp add: bit_length.simps)
next
  case False
  then have m: "0 < m" and n: "0 < n" using assms by simp_all
  show ?thesis
  proof (rule ccontr)
    assume "\<not> bit_length m \<le> bit_length n"
    then have "bit_length n \<le> bit_length m - 1" by simp
    then have "(2::nat) ^ bit_length n \<le> 2 ^ (bit_length m - 1)"
      by (rule power_increasing) simp
    also have "\<dots> \<le> m" using bit_length_bounds [OF m] by simp
    finally have "2 ^ bit_length n \<le> n" using assms by simp
    with bit_length_bounds [OF n] show False by simp
  qed
qed

lemma bit_length_le:
  assumes "n < 2 ^ w"
  shows "bit_length n \<le> w"
proof (cases "n = 0")
  case True
  then show ?thesis by (simp add: bit_length.simps)
next
  case False
  then have n: "0 < n" by simp
  show ?thesis
  proof (rule ccontr)
    assume "\<not> bit_length n \<le> w"
    then have "w \<le> bit_length n - 1" by simp
    then have "(2::nat) ^ w \<le> 2 ^ (bit_length n - 1)"
      by (rule power_increasing) simp
    also have "\<dots> \<le> n" using bit_length_bounds [OF n] by simp
    finally show False using assms by simp
  qed
qed

lemma round_half_even_ge_div:
  assumes "0 < b"
  shows "a div b \<le> round_half_even a b" and "round_half_even a b \<le> a div b + 1"
  by (simp_all add: round_half_even_def Let_def)

lemma round_half_even_le:
  assumes "0 < b" and "a \<le> N * b"
  shows "round_half_even a b \<le> N"
proof -
  have "a div b \<le> (N * b) div b" using assms by (intro zdiv_mono1) simp_all
  then have q: "a div b \<le> N" using assms(1) by simp
  show ?thesis
  proof (cases "a div b = N")
    case True
    have "a = (a div b) * b + a mod b" by simp
    with True assms have "a mod b \<le> 0" by (metis add_le_cancel_left add.right_neutral)
    moreover have "0 \<le> a mod b" using assms(1) by simp
    ultimately have "a mod b = 0" by simp
    then show ?thesis using True assms(1) by (simp add: round_half_even_def Let_def)
  next
    case False
    with q have "a div b + 1 \<le> N" by simp
    with round_half_even_ge_div(2) [OF assms(1), of a] show ?thesis by simp
  qed
qed

lemma round_half_even_ge:
  assumes "0 < b" and "N * b \<le> a" and "b < 2 * (a - N * b)"
  shows "N + 1 \<le> round_half_even a b"
proof -
  have "(N * b) div b \<le> a div b" using assms by (intro zdiv_mono1) simp_all
  then have q: "N \<le> a div b" using assms(1) by simp
  show ?thesis
  proof (cases "a div b = N")
    case True
    have "a = (a div b) * b + a mod b" by simp
    with True have "a mod b = a - N * b" by simp
    with assms(3) have "b < 2 * (a mod b)" by simp
    then show ?thesis using True by (simp add: round_half_even_def Let_def)
  next
    case False
    with q have "N + 1 \<le> a div b" by simp
    with round_half_even_ge_div(1) [OF assms(1), of a] show ?thesis by simp
  qed
qed

lemma ceil_div_le:
  fixes m n d :: int
  assumes "0 < d" and "m \<le> n * d"
  shows "- ((- m) div d) \<le> n"
proof -
  have "((- n) * d) div d \<le> (- m) div d" using assms by (intro zdiv_mono1) simp_all
  moreover have "((- n) * d) div d = - n"
    using assms(1) nonzero_mult_div_cancel_right [of d "- n"] by simp
  ultimately show ?thesis by simp
qed

lemma ceil_div_ge:
  fixes m n d :: int
  assumes "0 < d" and "(n - 1) * d < m"
  shows "n \<le> - ((- m) div d)"
proof (rule ccontr)
  define q r where "q = (- m) div d" and "r = (- m) mod d"
  have m: "- m = q * d + r" by (simp add: q_def r_def)
  have r: "0 \<le> r" using assms(1) by (simp add: r_def)
  assume "\<not> n \<le> - ((- m) div d)"
  then have "1 - n \<le> q" by (simp add: q_def)
  then have "(1 - n) * d \<le> q * d"
    using assms(1) by (intro mult_right_mono) simp_all
  with m r have "m \<le> (n - 1) * d" by (simp add: algebra_simps)
  with assms(2) show False by simp
qed

lemma ceil_int_bounds:
  fixes t l :: int
  assumes "0 < l"
  shows "(- ((- t) div l) - 1) * l < t" and "t \<le> - ((- t) div l) * l"
proof -
  define q r where "q = (- t) div l" and "r = (- t) mod l"
  have t: "- t = q * l + r" by (simp add: q_def r_def)
  have r: "0 \<le> r" "r < l" using assms by (simp_all add: r_def)
  from t r show "(- ((- t) div l) - 1) * l < t"
    unfolding q_def [symmetric] by (simp add: algebra_simps)
  from t r show "t \<le> - ((- t) div l) * l"
    unfolding q_def [symmetric] by (simp add: algebra_simps)
qed

lemma ilog2_quot_le:
  assumes "0 < t" and "t \<le> l"
  shows "ilog2_quot t l \<le> 0"
proof -
  have "bit_length (nat t) \<le> bit_length (nat l)"
    using assms by (intro bit_length_mono) simp
  then show ?thesis by (simp add: ilog2_quot_def Let_def)
qed

lemma ilog2_quot_ge:
  assumes "1 \<le> l" and "l \<le> t"
  shows "0 \<le> ilog2_quot t l" and "l * 2 ^ nat (ilog2_quot t l) \<le> t"
proof -
  define bt bl where "bt = bit_length (nat t)" and "bl = bit_length (nat l)"
  define k0 where "k0 = int bt - int bl"
  have le: "bl \<le> bt"
    unfolding bt_def bl_def using assms by (intro bit_length_mono) simp
  then have k0: "0 \<le> k0" by (simp add: k0_def)
  have lpos: "0 < nat l" and tpos: "0 < nat t" using assms by simp_all
  have lhi: "nat l < 2 ^ bl" using bit_length_bounds [OF lpos] by (simp add: bl_def)
  have tlo: "2 ^ (bt - 1) \<le> nat t" using bit_length_bounds [OF tpos] by (simp add: bt_def)
  have k: "ilog2_quot t l = (if pow2_le_quot k0 t l then k0 else k0 - 1)"
    by (simp add: ilog2_quot_def Let_def k0_def bt_def bl_def)
  have both: "0 \<le> ilog2_quot t l \<and> l * 2 ^ nat (ilog2_quot t l) \<le> t"
  proof (cases "pow2_le_quot k0 t l")
    case True
    then show ?thesis using k k0 by (simp add: pow2_le_quot_def)
  next
    case False
    have "k0 \<noteq> 0"
    proof
      assume "k0 = 0"
      with False assms show False by (simp add: pow2_le_quot_def)
    qed
    with k0 have k1: "1 \<le> k0" by simp
    then have lt: "bl < bt" by (simp add: k0_def)
    have n: "nat (k0 - 1) = bt - 1 - bl" using k1 by (simp add: k0_def)
    have "nat l * 2 ^ (bt - 1 - bl) \<le> 2 ^ bl * 2 ^ (bt - 1 - bl)"
      using lhi by (intro mult_right_mono) simp_all
    also have "\<dots> = 2 ^ (bt - 1)"
      using lt by (simp flip: power_add)
    also have "\<dots> \<le> nat t" by (rule tlo)
    finally have "int (nat l * 2 ^ (bt - 1 - bl)) \<le> int (nat t)"
      by (simp only: of_nat_le_iff)
    moreover have "int (nat l * 2 ^ (bt - 1 - bl)) = l * 2 ^ (bt - 1 - bl)"
      using assms(1) by simp
    moreover have "int (nat t) = t" using assms by simp
    ultimately have "l * 2 ^ (bt - 1 - bl) \<le> t" by (simp only:)
    then show ?thesis using k False k1 n by simp
  qed
  from both show "0 \<le> ilog2_quot t l" and "l * 2 ^ nat (ilog2_quot t l) \<le> t" by simp_all
qed

lemma page_count_exact:
  assumes "0 \<le> t" and "t < 2 ^ 53" and "1 \<le> l"
  shows "max 1 (ceil_double (double_div t l)) = max 1 (- ((- t) div l))"
proof (cases "t = 0")
  case True
  then show ?thesis by (simp add: double_div_def ceil_double_def)
next
  case False
  with assms have tpos: "0 < t" by simp
  define k where "k = ilog2_quot t l"
  define e where "e = max (- 1074) (k - 52)"
  define s where "s = nat (- e)"
  define m where "m = round_half_even (t * 2 ^ s) l"
  define n where "n = - ((- t) div l)"
  have lpos: "0 < l" using assms by simp
  have k52: "k \<le> 52"
  proof (cases "l \<le> t")
    case True
    from ilog2_quot_ge [OF assms(3) True]
    have "0 \<le> k" and lk: "l * 2 ^ nat k \<le> t" by (simp_all add: k_def)
    have "(2::int) ^ nat k \<le> l * 2 ^ nat k" using assms(3) by simp
    then have "(2::int) ^ nat k < 2 ^ 53"
      by (rule le_less_trans [OF order_trans [OF _ lk] assms(2)])
    then have "nat k < 53" by (rule power_less_imp_less_exp [rotated]) simp
    then show ?thesis by simp
  next
    case False
    with tpos ilog2_quot_le [of t l] show ?thesis by (simp add: k_def)
  qed
  then have e0: "e \<le> 0" by (simp add: e_def)
  then have es: "e = - int s" by (simp add: s_def)
  have dd: "double_div t l = (m, e)"
  proof (cases "e = 0")
    case True
    then show ?thesis
      using tpos by (simp add: double_div_def Let_def k_def e_def m_def s_def)
  next
    case False
    with e0 have "\<not> 0 \<le> e" by simp
    then show ?thesis
      using tpos by (simp add: double_div_def Let_def k_def e_def m_def s_def)
  qed
  have cd: "ceil_double (m, e) = - ((- m) div 2 ^ s)"
  proof (cases "e = 0")
    case True
    then show ?thesis by (simp add: ceil_double_def s_def)
  next
    case False
    with e0 have "\<not> 0 \<le> e" by simp
    then show ?thesis by (simp add: ceil_double_def s_def)
  qed
  have d: "(0::int) < 2 ^ s" by simp
  note nb = ceil_int_bounds [OF lpos, of t, folded n_def]
  have up: "- ((- m) div 2 ^ s) \<le> n"
  proof -
    have "t * 2 ^ s \<le> (n * l) * 2 ^ s" using nb(2) by (intro mult_right_mono) simp_all
    then have "t * 2 ^ s \<le> (n * 2 ^ s) * l" by (simp add: algebra_simps)
    then have "m \<le> n * 2 ^ s" unfolding m_def by (rule round_half_even_le [OF lpos])
    then show ?thesis by (rule ceil_div_le [OF d])
  qed
  show ?thesis
  proof (cases "l \<le> t")
    case True
    from ilog2_quot_ge [OF assms(3) True]
    have k0: "0 \<le> k" and lk: "l * 2 ^ nat k \<le> t" by (simp_all add: k_def)
    have ek: "e = k - 52" using k0 by (simp add: e_def)
    then have sk: "s + nat k = 52" using k0 k52 by (simp add: s_def)
    have "s + 1 + nat k = 53" using sk by simp
    then have "(2::int) ^ (s + 1 + nat k) = 2 ^ 53" by (simp only:)
    then have p: "(2::int) ^ 53 = 2 ^ (s + 1) * 2 ^ nat k" by (simp only: power_add)
    have "l * 2 ^ nat k < 2 ^ 53" by (rule le_less_trans [OF lk assms(2)])
    then have "l * 2 ^ nat k < 2 ^ (s + 1) * 2 ^ nat k" by (simp only: p)
    then have l2: "l < 2 ^ (s + 1)" by (simp only: mult_less_cancel_right_pos zero_less_power zero_less_numeral)
    have t1: "(n - 1) * l + 1 \<le> t" using nb(1) by simp
    define N where "N = (n - 1) * 2 ^ s"
    have "((n - 1) * l + 1) * 2 ^ s \<le> t * 2 ^ s"
      using t1 by (intro mult_right_mono) simp_all
    then have g: "N * l + 2 ^ s \<le> t * 2 ^ s" by (simp add: N_def algebra_simps)
    have 1: "N * l \<le> t * 2 ^ s" using g d by linarith
    have "(2::int) ^ (s + 1) = 2 * 2 ^ s" by simp
    with l2 have "l < 2 * 2 ^ s" by (simp only:)
    moreover define T P NL where "T = t * 2 ^ s" and "P = (2::int) ^ s" and "NL = N * l"
    ultimately have "l < 2 * (T - NL)" using g by simp
    then have 2: "l < 2 * (t * 2 ^ s - N * l)" by (simp only: T_def NL_def)
    have "N + 1 \<le> m" unfolding m_def by (rule round_half_even_ge [OF lpos 1 2])
    then have "(n - 1) * 2 ^ s < m" by (simp add: N_def)
    then have "n \<le> - ((- m) div 2 ^ s)" by (rule ceil_div_ge [OF d])
    with up have "- ((- m) div 2 ^ s) = n" by simp
    then show ?thesis by (simp add: dd cd n_def)
  next
    case False
    then have tl: "t < l" by simp
    have "t * 2 ^ s \<le> l * 2 ^ s" using tl by (intro mult_right_mono) simp_all
    then have "t * 2 ^ s \<le> 2 ^ s * l" by (simp add: algebra_simps)
    then have "m \<le> 2 ^ s" unfolding m_def by (rule round_half_even_le [OF lpos])
    then have "m \<le> 1 * 2 ^ s" by simp
    then have c1: "- ((- m) div 2 ^ s) \<le> 1" by (rule ceil_div_le [OF d])
    have "n \<le> 1"
    proof -
      have "t \<le> 1 * l" using tl by simp
      then have "- ((- t) div l) \<le> 1" by (rule ceil_div_le [OF lpos])
      then show ?thesis by (simp add: n_def)
    qed
    with c1 show ?thesis by (simp add: dd cd n_def)
  qed
qed

lemma ceiling_quot_div:
  fixes t l :: int
  shows "\<lceil>real_of_int t / real_of_int l\<rceil> = - ((- t) div l)"
proof -
  have "- (real_of_int t / real_of_int l) = real_of_int (- t) / real_of_int l" by simp
  then have "\<lfloor>- (real_of_int t / real_of_int l)\<rfloor> = (- t) div l"
    by (simp only: floor_divide_of_int_eq)
  then show ?thesis by (simp only: ceiling_def)
qed

lemma double_int_exact:
  assumes "\<bar>n\<bar> < 2 ^ 53"
  shows "double_int n = Num n"
proof -
  have "nat \<bar>n\<bar> < 2 ^ 53" using assms by (simp add: nat_less_iff)
  then have "bit_length (nat \<bar>n\<bar>) \<le> 53" by (rule bit_length_le)
  then show ?thesis by (simp add: double_int_def Let_def)
qed

lemma buildPageInfo_facts:
  assumes "0 \<le> total'" and "total' < 2 ^ 53" and "1 \<le> page'"
  shows "limit (buildPageInfo total' page' limit') = max 1 limit'"
    and "pageCount (buildPageInfo total' page' limit')
           = max 1 \<lceil>real_of_int total' / real_of_int (max 1 limit')\<rceil>"
    and "hasNext (buildPageInfo total' page' limit')
           = (page' < pageCount (buildPageInfo total' page' limit'))"
    and "hasPrev (buildPageInfo total' page' limit') = (1 < page')"
    and "1 \<le> pageCount (buildPageInfo total' page' limit')"
    and "total' \<le> pageCount (buildPageInfo total' page' limit') * max 1 limit'"
    and "0 < total' \<longrightarrow>
           (pageCount (buildPageInfo total' page' limit') - 1) * max 1 limit' < total'"
    and "total' = 0 \<longrightarrow> pageCount (buildPageInfo total' page' limit') = 1
            \<and> \<not> hasNext (buildPageInfo total' page' limit')"
proof -
  let ?L = "max 1 limit'"
  have Lpos: "0 < ?L" and L1: "1 \<le> ?L" by simp_all
  show "limit (buildPageInfo total' page' limit') = max 1 limit'"
    by (simp add: buildPageInfo_def Let_def)
  have "pageCount (buildPageInfo total' page' limit')
          = max 1 (ceil_double (double_div total' ?L))"
    by (simp add: buildPageInfo_def Let_def)
  also have "\<dots> = max 1 (- ((- total') div ?L))"
    by (rule page_count_exact [OF assms(1) assms(2) L1])
  also have "\<dots> = max 1 \<lceil>real_of_int total' / real_of_int ?L\<rceil>"
    by (simp only: ceiling_quot_div)
  finally show pc: "pageCount (buildPageInfo total' page' limit')
           = max 1 \<lceil>real_of_int total' / real_of_int (max 1 limit')\<rceil>" .
  show "hasNext (buildPageInfo total' page' limit')
           = (page' < pageCount (buildPageInfo total' page' limit'))"
    by (simp add: buildPageInfo_def Let_def)
  show "hasPrev (buildPageInfo total' page' limit') = (1 < page')"
    by (simp add: buildPageInfo_def Let_def)
  show "1 \<le> pageCount (buildPageInfo total' page' limit')"
    unfolding pc by simp
  have up: "total' \<le> \<lceil>real_of_int total' / real_of_int ?L\<rceil> * ?L"
    unfolding ceiling_quot_div by (rule ceil_int_bounds(2) [OF Lpos])
  have "\<lceil>real_of_int total' / real_of_int ?L\<rceil> * ?L
          \<le> max 1 \<lceil>real_of_int total' / real_of_int ?L\<rceil> * ?L"
    by (rule mult_right_mono) simp_all
  with up show "total' \<le> pageCount (buildPageInfo total' page' limit') * max 1 limit'"
    unfolding pc by linarith
  show "0 < total' \<longrightarrow>
           (pageCount (buildPageInfo total' page' limit') - 1) * max 1 limit' < total'"
  proof
    assume tpos: "0 < total'"
    have "0 < real_of_int total' / real_of_int ?L"
      using tpos Lpos by simp
    then have "0 < \<lceil>real_of_int total' / real_of_int ?L\<rceil>"
      by (simp only: zero_less_ceiling)
    then have "max 1 \<lceil>real_of_int total' / real_of_int ?L\<rceil>
                 = \<lceil>real_of_int total' / real_of_int ?L\<rceil>"
      by simp
    then show "(pageCount (buildPageInfo total' page' limit') - 1) * max 1 limit' < total'"
      unfolding pc ceiling_quot_div using ceil_int_bounds(1) [OF Lpos, of total'] by simp
  qed
  show "total' = 0 \<longrightarrow> pageCount (buildPageInfo total' page' limit') = 1
            \<and> \<not> hasNext (buildPageInfo total' page' limit')"
    using assms(3) by (simp add: buildPageInfo_def Let_def double_div_def ceil_double_def)
qed

lemmas double_eval =
  ceil_double_def double_div_def ilog2_quot_def pow2_le_quot_def round_half_even_def
  double_int_def js_sub_def Let_def

lemma ceil_double_rounded:
  "ceil_double (double_div 1152921504606846976 3) = 384307168202282304"
  by (simp add: double_eval)

lemma pageCount_rounded:
  "pageCount (buildPageInfo 1152921504606846976 1 3) = 384307168202282304"
  by (simp add: buildPageInfo_def Let_def ceil_double_rounded)

lemma ceil_double_samples:
  "ceil_double (double_div 101 1) = 101"
  "ceil_double (double_div 101 25) = 5"
  "ceil_double (double_div 9007199254740991 9007199254740990) = 2"
  by (simp_all add: double_eval)

lemma buildPageInfo_samples:
  "buildPageInfo 101 2 0
     = \<lparr> page = 2, pageCount = 101, limit = 1, total = 101, hasNext = True, hasPrev = True \<rparr>"
  "pageCount (buildPageInfo 101 2 25) = 5"
  "limit (buildPageInfo 101 2 (- 7)) = 1"
  "pageCount (buildPageInfo 9007199254740991 1 9007199254740990) = 2"
  by (simp_all add: buildPageInfo_def Let_def ceil_double_samples)

lemma querySchemaToRange_samples:
  "querySchemaToRange 1 25 = \<lparr> from = Num 0, to = Num 24 \<rparr>"
  "querySchemaToRange 3 10 = \<lparr> from = Num 20, to = Num 29 \<rparr>"
  "querySchemaToRange 4 50 = \<lparr> from = Num 150, to = Num 199 \<rparr>"
  "querySchemaToRange 9007199254740 1000
     = \<lparr> from = Num 9007199254739000, to = Num 9007199254739999 \<rparr>"
  "querySchemaToRange 9007199254741 1000
     = \<lparr> from = Num 9007199254740000, to = Num 9007199254741000 \<rparr>"
  by (simp_all add: querySchemaToRange_def double_eval)

text \<open>
  The claim as stated (for every \<open>total \<ge> 0\<close>) fails on large totals. The code divides
  two doubles, so the quotient is rounded before \<^verbatim>\<open>Math.ceil\<close> sees it: for \<open>total = 2 ^ 60\<close>
  and \<open>limit = 3\<close> the page count is 384307168202282304, not the ceiling 384307168202282326
  of the quotient, and that many pages of 3 rows do not hold \<open>total\<close> rows.
\<close>

theorem buildPageInfo_rounding_counterexample:
  "pageCount (buildPageInfo 1152921504606846976 1 3) = 384307168202282304
   \<and> max 1 \<lceil>real_of_int 1152921504606846976 / real_of_int (max 1 3)\<rceil>
       = (384307168202282326 :: int)
   \<and> pageCount (buildPageInfo 1152921504606846976 1 3) * max 1 3
       < (1152921504606846976 :: int)"
  by (simp add: pageCount_rounded)

text \<open>
  Claim C4, as the code has it. For \<open>0 \<le> total < 2 ^ 53\<close> (a total that is a safe
  integer), \<open>page \<ge> 1\<close> and every integer \<open>limit\<close> (zero and negative ones too),
  \<open>buildPageInfo\<close> clamps the limit to at least 1, and then
  \<open>pageCount = max 1 (ceil (total / limit))\<close>, the ceiling of the exact quotient,
  \<open>hasNext = (page < pageCount)\<close> and \<open>hasPrev = (page > 1)\<close>. The page count is at least 1
  and is the least number of pages of the clamped size that hold \<open>total\<close> rows; \<open>total = 0\<close>
  gives one page and no next page.
\<close>

theorem buildPageInfo_spec:
  assumes "0 \<le> total'" and "total' < 2 ^ 53" and "1 \<le> page'"
  shows "limit (buildPageInfo total' page' limit') = max 1 limit'
       \<and> pageCount (buildPageInfo total' page' limit')
           = max 1 \<lceil>real_of_int total' / real_of_int (max 1 limit')\<rceil>
       \<and> hasNext (buildPageInfo total' page' limit')
           = (page' < pageCount (buildPageInfo total' page' limit'))
       \<and> hasPrev (buildPageInfo total' page' limit') = (1 < page')
       \<and> 1 \<le> pageCount (buildPageInfo total' page' limit')
       \<and> total' \<le> pageCount (buildPageInfo total' page' limit') * max 1 limit'
       \<and> (0 < total' \<longrightarrow>
           (pageCount (buildPageInfo total' page' limit') - 1) * max 1 limit' < total')
       \<and> (total' = 0 \<longrightarrow> pageCount (buildPageInfo total' page' limit') = 1
            \<and> \<not> hasNext (buildPageInfo total' page' limit'))"
  using buildPageInfo_facts [OF assms, of limit'] by blast

theorem buildPageInfo_spec_witness:
  "(0::int) \<le> 101 \<and> (101::int) < 2 ^ 53 \<and> (1::int) \<le> 2
   \<and> buildPageInfo 101 2 0
       = \<lparr> page = 2, pageCount = 101, limit = 1, total = 101, hasNext = True, hasPrev = True \<rparr>
   \<and> pageCount (buildPageInfo 101 2 25) = 5
   \<and> limit (buildPageInfo 101 2 (- 7)) = 1
   \<and> pageCount (buildPageInfo 9007199254740991 1 9007199254740990) = 2"
  using buildPageInfo_spec [of 101 2 25]
  by (simp add: buildPageInfo_samples)

text \<open>
  The claim as stated (for every \<open>page \<ge> 1\<close> and \<open>limit \<ge> 1\<close>) fails on large pages.
  Each operation of the code rounds its result to a double: for \<open>page = 9007199254741\<close>
  and \<open>limit = 1000\<close> the code returns \<open>to = 9007199254741000\<close>, one more than
  \<open>(page - 1) * limit + limit - 1\<close>.
\<close>

theorem querySchemaToRange_rounding_counterexample:
  "querySchemaToRange 9007199254741 1000
     = \<lparr> from = Num 9007199254740000, to = Num 9007199254741000 \<rparr>
   \<and> (9007199254741 - 1) * 1000 + 1000 - 1 = (9007199254740999 :: int)"
  by (simp add: querySchemaToRange_samples)

text \<open>
  Claim C9, as the code has it. For \<open>page \<ge> 1\<close> and \<open>limit \<ge> 1\<close> with
  \<open>page * limit < 2 ^ 53\<close> (a range within the safe integers), \<open>querySchemaToRange\<close> returns
  \<open>from = (page - 1) * limit\<close> and \<open>to = (page - 1) * limit + limit - 1\<close>; page 1 of 25 is
  rows 0 to 24 and page 3 of 10 is rows 20 to 29.
\<close>

theorem querySchemaToRange_spec:
  assumes "1 \<le> page'" and "1 \<le> limit'" and "page' * limit' < 2 ^ 53"
  shows "querySchemaToRange page' limit'
           = \<lparr> from = Num ((page' - 1) * limit'),
               to = Num ((page' - 1) * limit' + limit' - 1) \<rparr>
         \<and> querySchemaToRange 1 25 = \<lparr> from = Num 0, to = Num 24 \<rparr>
         \<and> querySchemaToRange 3 10 = \<lparr> from = Num 20, to = Num 29 \<rparr>"
proof -
  define P where "P = page' * limit'"
  define F where "F = (page' - 1) * limit'"
  have P: "P < 2 ^ 53" using assms(3) by (simp only: P_def)
  have "page' * 1 \<le> page' * limit'" using assms by (intro mult_left_mono) simp_all
  then have pP: "page' \<le> P" by (simp add: P_def)
  have FP: "F + limit' = P" by (simp add: F_def P_def algebra_simps)
  have F0: "0 \<le> F" using assms by (simp add: F_def)
  have 1: "\<bar>page' + - 1\<bar> < 2 ^ 53" using assms(1) pP P by simp
  have 2: "\<bar>F\<bar> < 2 ^ 53" using F0 FP assms(2) P by simp
  have 3: "\<bar>F + limit'\<bar> < 2 ^ 53" using F0 FP assms(2) P by simp
  have 4: "\<bar>F + limit' + - 1\<bar> < 2 ^ 53" using F0 FP assms(2) P by simp
  have a: "js_sub (Num page') (Num 1) = Num (page' - 1)"
    using double_int_exact [OF 1] by (simp add: js_sub_def)
  have b: "js_mul (Num (page' - 1)) (Num limit') = Num F"
    using double_int_exact [OF 2] by (simp add: F_def)
  have c: "js_add (Num F) (Num limit') = Num (F + limit')"
    using double_int_exact [OF 3] by simp
  have d: "js_sub (Num (F + limit')) (Num 1) = Num (F + limit' - 1)"
    using double_int_exact [OF 4] by (simp add: js_sub_def)
  have "querySchemaToRange page' limit' = \<lparr> from = Num F, to = Num (F + limit' - 1) \<rparr>"
    by (simp only: querySchemaToRange_def Let_def a b c d)
  then show ?thesis by (simp add: F_def querySchemaToRange_samples)
qed

theorem querySchemaToRange_spec_witness:
  "(1::int) \<le> 4 \<and> (1::int) \<le> 50 \<and> (4::int) * 50 < 2 ^ 53
   \<and> querySchemaToRange 4 50 = \<lparr> from = Num 150, to = Num 199 \<rparr>
   \<and> querySchemaToRange 9007199254740 1000
       = \<lparr> from = Num 9007199254739000, to = Num 9007199254739999 \<rparr>"
  using querySchemaToRange_spec [of 4 50]
  by (simp add: querySchemaToRange_samples)

section \<open>Properties of the response builder\<close>

lemma map_of_obj_set: "map_of (obj_set ps k v) = (map_of ps)(k \<mapsto> v)"
  by (induction ps k v rule: obj_set.induct) auto

lemma map_of_fold_obj_set:
  "map_of (fold (\<lambda>(k, x) obj. obj_set obj k x) kvs ps) = map_of ps ++ map_of (rev kvs)"
proof (induction kvs arbitrary: ps)
  case Nil
  then show ?case by simp
next
  case (Cons kv kvs)
  obtain k x where kv: "kv = (k, x)" by (cases kv)
  have "map_of (fold (\<lambda>(k, x) obj. obj_set obj k x) (kv # kvs) ps)
          = map_of (obj_set ps k x) ++ map_of (rev kvs)"
    using Cons.IH [of "obj_set ps k x"] by (simp add: kv)
  also have "\<dots> = map_of ps ++ map_of (rev (kv # kvs))"
    by (simp add: map_of_obj_set kv map_add_def fun_eq_iff split: option.splits)
  finally show ?case .
qed

text \<open>
  Claim C3, as the code has it. \<open>httpDeleted data\<close> is a status-200 response whose body is
  \<open>{deleted: true}\<close> overlaid with the caller's fields: the spread comes after the default, so
  every field of the caller, \<open>deleted\<close> too, replaces it, and \<open>deleted\<close> is \<open>true\<close> only
  when the caller supplies no \<open>deleted\<close> of its own. With no data the body is exactly
  \<open>{deleted: true}\<close>.
\<close>

theorem httpDeleted_overlay:
  "\<exists>fields.
      httpDeleted data None
        = Inr \<lparr> status = 200, resp_body = JsonBody (JObj fields), headers = [] \<rparr>
    \<and> (\<forall>k. map_of fields k
           = (case map_of (rev (spread_props (or_empty_object data))) k of
                Some v \<Rightarrow> Some v
              | None \<Rightarrow> if k = ''deleted'' then Some (JBool True) else None))
    \<and> httpDeleted None None
        = Inr \<lparr> status = 200, resp_body = JsonBody (JObj [(''deleted'', JBool True)]),
                headers = [] \<rparr>"
proof -
  let ?fields = "spread_into [(''deleted'', JBool True)] (or_empty_object data)"
  have 1: "httpDeleted data None
        = Inr \<lparr> status = 200, resp_body = JsonBody (JObj ?fields), headers = [] \<rparr>"
    by (simp add: httpDeleted_def Response_json_def null_body_status_def)
  have 2: "map_of ?fields k
           = (case map_of (rev (spread_props (or_empty_object data))) k of
                Some v \<Rightarrow> Some v
              | None \<Rightarrow> if k = ''deleted'' then Some (JBool True) else None)" for k
    unfolding spread_into_def map_of_fold_obj_set
    by (simp add: map_add_def split: option.splits)
  have 3: "httpDeleted None None
        = Inr \<lparr> status = 200, resp_body = JsonBody (JObj [(''deleted'', JBool True)]),
                headers = [] \<rparr>"
    by (simp add: httpDeleted_def Response_json_def null_body_status_def or_empty_object_def
        spread_into_def spread_props_def)
  from 1 2 3 show ?thesis by blast
qed

text \<open>
  The claim as stated (a caller-supplied \<open>deleted\<close> never overrides \<open>true\<close>) fails:
  \<^verbatim>\<open>httpDeleted({deleted: false, id: 7})\<close> answers \<open>{deleted: false, id: 7}\<close>.
\<close>

theorem httpDeleted_override_counterexample:
  "httpDeleted (Some (JObj [(''deleted'', JBool False), (''id'', JNum 7)])) None
     = Inr \<lparr> status = 200,
             resp_body = JsonBody (JObj [(''deleted'', JBool False), (''id'', JNum 7)]),
             headers = [] \<rparr>
   \<and> obj_get [(''deleted'', JBool False), (''id'', JNum 7)] ''deleted'' \<noteq> JBool True"
  by (simp add: httpDeleted_def Response_json_def null_body_status_def or_empty_object_def
      spread_into_def spread_props_def obj_get_def)

theorem httpDeleted_overlay_witness:
  "\<exists>fields.
      httpDeleted (Some (JObj [(''id'', JNum 7)])) None
        = Inr \<lparr> status = 200, resp_body = JsonBody (JObj fields), headers = [] \<rparr>
    \<and> map_of fields ''deleted'' = Some (JBool True)
    \<and> map_of fields ''id'' = Some (JNum 7)"
  using httpDeleted_overlay [of "Some (JObj [(''id'', JNum 7)])"]
  by (auto simp add: or_empty_object_def spread_props_def)

section \<open>Properties of the guard engine\<close>

lemma map_of_keyed: "map_of (map (\<lambda>k. (k, f k)) ks) k = (if k \<in> set ks then Some (f k) else None)"
  by (induction ks) auto

lemma initGuards_lookup:
  "map_of (initGuards options) act
     = (if act \<in> fst ` set (guardChecks options)
        then Some \<lparr> permissionHandlerGenerator = permissionHandlerGenerator_of options,
                    action = act \<rparr>
        else None)"
  unfolding initGuards_def map_of_keyed by simp

lemma invoke_produced_handler_registered:
  assumes "map_of (guardChecks options) act = Some p" and "auth options rq = Inr ad"
  shows "invoke_produced_handler options act rq resource = guard_handler p ad resource"
proof -
  have "act \<in> fst ` set (guardChecks options)"
    using assms(1) map_of_eq_None_iff [of "guardChecks options" act] by auto
  then show ?thesis
    using assms
    by (simp add: invoke_produced_handler_def initGuards_lookup permissionHandlerGenerator_of_def)
qed

text \<open>
  Claim C2, as the code has it. The handler that a guard of \<open>initGuards\<close> produces for a
  registered check dispatches on the declared parameter count of the check, not on how the
  handler is called: for a one-parameter (basic) check a call with a resource evaluates the
  check on the authentication data and ignores the resource; for a two-parameter
  (resource-scoped) check a call without a resource evaluates the check with an undefined
  resource; the handler answers \<open>false\<close> without evaluating the check only when the declared
  parameter count is neither 1 nor 2.
\<close>

theorem produced_handler_dispatch:
  assumes "map_of (guardChecks options) act = Some p" and "auth options rq = Inr ad"
  shows "invoke_produced_handler options act rq resource
           = (if plength p = 1 then pcall p ad None
              else if plength p = 2 then pcall p ad resource
              else Inr False)"
  using invoke_produced_handler_registered [OF assms] by (simp add: guard_handler_def)

text \<open>
  The claim as stated (a call with the wrong arity returns \<open>false\<close> and neither raises nor
  evaluates the check) fails: \<^verbatim>\<open>handler(resource)\<close> on the basic check \<open>adminOnly\<close> and
  \<^verbatim>\<open>handler()\<close> on the resource-scoped check \<open>anyone\<close> evaluate the check and return
  \<open>true\<close>, and \<^verbatim>\<open>handler()\<close> on \<open>canEdit\<close>, which reads its resource, raises.
\<close>

theorem produced_handler_wrong_arity_counterexample:
  "invoke_produced_handler sample_options ''adminOnly'' sample_request (Some ''doc'') = Inr True
   \<and> invoke_produced_handler sample_options ''anyone'' sample_request None = Inr True
   \<and> invoke_produced_handler sample_options ''canEdit'' sample_request None
       = Inl (OtherError ''TypeError'')"
  by (simp add: invoke_produced_handler_def initGuards_def sample_options_def
      permissionHandlerGenerator_of_def guard_handler_def)

theorem produced_handler_dispatch_witness:
  "map_of (guardChecks sample_options) ''adminOnly''
      = Some \<lparr> plength = 1, pcall = (\<lambda>isAdmin resource. Inr isAdmin) \<rparr>
   \<and> auth sample_options sample_request = Inr True
   \<and> invoke_produced_handler sample_options ''adminOnly'' sample_request (Some ''doc'') = Inr True"
proof -
  have 1: "map_of (guardChecks sample_options) ''adminOnly''
      = Some \<lparr> plength = 1, pcall = (\<lambda>isAdmin resource. Inr isAdmin) \<rparr>"
    by (simp add: sample_options_def)
  have 2: "auth sample_options sample_request = Inr True"
    by (simp add: sample_options_def)
  from produced_handler_dispatch [OF 1 2, of "Some ''doc''"] 1 2 show ?thesis by simp
qed

section \<open>Properties of the route handler\<close>

lemma call_handleRoute: "call (handleRoute fn schemas guard) = route_handler fn schemas guard"
  by (simp add: handleRoute_def)

lemma httpError_403: "httpError 403 ''Forbidden'' = Inr forbidden_response"
  by (simp add: httpError_def Response_json_def null_body_status_def forbidden_response_def)

lemma guard_block_denied:
  assumes "permissionHandlerGenerator g (action g) rq = Inr ph"
    and "\<not> needResource ph" and "handler ph None = Inr False"
  shows "guard_block (Some g) rq = ([EvGenerate, EvCheck], Respond forbidden_response)"
  using assms by (simp add: guard_block_def httpError_403 returning_def)

text \<open>
  Claim C5. On a route guarded by a basic check (no resource needed) that returns
  \<open>false\<close>, the handler answers 403 \<open>Forbidden\<close> after the guard alone: the route
  parameters are not awaited, no schema validates anything, no body is read and the user
  logic is not called, whatever the schemas, the request and the user logic are.
\<close>

theorem basic_denial_precedes_validation:
  assumes "permissionHandlerGenerator g (action g) rq = Inr ph"
    and "\<not> needResource ph" and "handler ph None = Inr False"
  shows "route_handler fn schemas (Some g) rq ctx
           = ([EvGenerate, EvCheck], Inr forbidden_response)
       \<and> status forbidden_response = 403
       \<and> EvAwaitParams \<notin> set (fst (route_handler fn schemas (Some g) rq ctx))
       \<and> EvReadForm \<notin> set (fst (route_handler fn schemas (Some g) rq ctx))
       \<and> EvReadJson \<notin> set (fst (route_handler fn schemas (Some g) rq ctx))
       \<and> EvUserLogic \<notin> set (fst (route_handler fn schemas (Some g) rq ctx))
       \<and> (\<forall>k. EvValidate k \<notin> set (fst (route_handler fn schemas (Some g) rq ctx)))"
proof -
  have "route_handler fn schemas (Some g) rq ctx = ([EvGenerate, EvCheck], Inr forbidden_response)"
    by (simp add: route_handler_def guard_block_denied [OF assms])
  then show ?thesis by (simp add: forbidden_response_def)
qed

lemma guard_block_noop:
  assumes "guard = None
     \<or> (\<exists>g ph. guard = Some g \<and> permissionHandlerGenerator g (action g) rq = Inr ph
           \<and> \<not> needResource ph \<and> handler ph None = Inr True)"
  shows "\<exists>t ad. guard_block guard rq = (t, Continue (noop_permission, ad))"
  using assms by (auto simp add: guard_block_def)

lemma noop_permission_eq: "noop_permission = (\<lambda>resource. Inr ())"
  by (simp add: noop_permission_def fun_eq_iff)

text \<open>
  Claim C10. On a route without a guard, and on a guarded route whose check is basic
  and passes, the \<open>handleResourcePermission\<close> callback that the guard block leaves for the
  user logic is the no-op: it returns without throwing for every resource, and the handler
  behaves as it does when the user logic is given a callback that only returns.
\<close>

theorem callback_is_noop:
  assumes "guard = None
     \<or> (\<exists>g ph. guard = Some g \<and> permissionHandlerGenerator g (action g) rq = Inr ph
           \<and> \<not> needResource ph \<and> handler ph None = Inr True)"
  shows "(\<exists>t ad. guard_block guard rq = (t, Continue (noop_permission, ad)))
       \<and> (\<forall>resource :: 'r. noop_permission resource = Inr ())
       \<and> route_handler fn schemas guard rq ctx
           = route_handler (\<lambda>c. fn (c\<lparr> handleResourcePermission := (\<lambda>resource :: 'r. Inr ()) \<rparr>))
               schemas guard rq ctx"
proof -
  from guard_block_noop [OF assms]
  obtain t ad where gb: "guard_block guard rq = (t, Continue (noop_permission, ad))"
    by blast
  have tb: "try_block fn schemas rq ctx noop_permission ad
      = try_block (\<lambda>c. fn (c\<lparr> handleResourcePermission := (\<lambda>resource. Inr ()) \<rparr>))
          schemas rq ctx noop_permission ad"
    by (simp add: try_block_def noop_permission_eq)
  have "route_handler fn schemas guard rq ctx
           = route_handler (\<lambda>c. fn (c\<lparr> handleResourcePermission := (\<lambda>resource. Inr ()) \<rparr>))
               schemas guard rq ctx"
    unfolding route_handler_def gb using tb by simp
  with gb show ?thesis by (auto simp add: noop_permission_def)
qed

theorem basic_denial_precedes_validation_witness:
  "permissionHandlerGenerator (guard_of visitor_options ''adminOnly'')
       (action (guard_of visitor_options ''adminOnly'')) sample_request
     = Inr \<lparr> handler = guard_handler \<lparr> plength = 1, pcall = (\<lambda>isAdmin resource. Inr isAdmin) \<rparr> False,
             needResource = False, ph_authData = False \<rparr>
   \<and> map_of (initGuards visitor_options) ''adminOnly'' = Some (guard_of visitor_options ''adminOnly'')
   \<and> route_handler sample_logic (Some accept_all) (Some (guard_of visitor_options ''adminOnly''))
        sample_request sample_ctx
       = ([EvGenerate, EvCheck], Inr forbidden_response)"
proof -
  let ?ph = "\<lparr> handler = guard_handler \<lparr> plength = 1, pcall = (\<lambda>isAdmin resource. Inr isAdmin) \<rparr> False,
             needResource = False, ph_authData = False \<rparr> :: (string, bool) PermissionHandler"
  have 1: "permissionHandlerGenerator (guard_of visitor_options ''adminOnly'')
       (action (guard_of visitor_options ''adminOnly'')) sample_request = Inr ?ph"
    by (simp add: guard_of_def visitor_options_def sample_options_def
        permissionHandlerGenerator_of_def)
  have 2: "\<not> needResource ?ph" by simp
  have 3: "handler ?ph None = Inr False" by (simp add: guard_handler_def)
  have 4: "map_of (initGuards visitor_options) ''adminOnly''
             = Some (guard_of visitor_options ''adminOnly'')"
    by (simp add: initGuards_def guard_of_def visitor_options_def sample_options_def)
  from basic_denial_precedes_validation [OF 1 2 3, of sample_logic "Some accept_all" sample_ctx]
    1 4 show ?thesis by simp
qed

theorem callback_is_noop_witness:
  "route_handler guarded_logic None (None :: (string, string, bool) Guard option)
      sample_request sample_ctx
     = route_handler sample_logic None (None :: (string, string, bool) Guard option)
         sample_request sample_ctx
   \<and> route_handler guarded_logic None (Some (guard_of sample_options ''adminOnly''))
      sample_request sample_ctx
     = route_handler sample_logic None (Some (guard_of sample_options ''adminOnly''))
         sample_request sample_ctx
   \<and> snd (route_handler guarded_logic None (Some (guard_of sample_options ''adminOnly''))
         sample_request sample_ctx)
     = Inr \<lparr> status = 200, resp_body = JsonBody (JObj [(''ok'', JBool True)]), headers = [] \<rparr>"
proof -
  let ?N = "None :: (string, string, bool) Guard option"
  let ?g = "guard_of sample_options ''adminOnly''"
  let ?ph = "\<lparr> handler = guard_handler \<lparr> plength = 1, pcall = (\<lambda>isAdmin resource. Inr isAdmin) \<rparr> True,
               needResource = False, ph_authData = True \<rparr> :: (string, bool) PermissionHandler"
  have n: "?N = None
     \<or> (\<exists>g ph. ?N = Some g
           \<and> permissionHandlerGenerator g (action g) sample_request = Inr ph
           \<and> \<not> needResource ph \<and> handler ph None = Inr True)"
    by simp
  have "permissionHandlerGenerator ?g (action ?g) sample_request = Inr ?ph"
    by (simp add: guard_of_def sample_options_def permissionHandlerGenerator_of_def)
  moreover have "\<not> needResource ?ph" by simp
  moreover have "handler ?ph None = Inr True" by (simp add: guard_handler_def)
  ultimately have s: "Some ?g = None
     \<or> (\<exists>g ph. Some ?g = Some g
           \<and> permissionHandlerGenerator g (action g) sample_request = Inr ph
           \<and> \<not> needResource ph \<and> handler ph None = Inr True)"
    by blast
  have l: "(\<lambda>c. guarded_logic (c\<lparr> handleResourcePermission := (\<lambda>resource. Inr ()) \<rparr>))
      = (\<lambda>c. sample_logic (c\<lparr> handleResourcePermission := (\<lambda>resource. Inr ()) \<rparr>))"
    by (simp add: guarded_logic_def sample_logic_def fun_eq_iff)
  have 1: "route_handler guarded_logic None ?N sample_request sample_ctx
     = route_handler sample_logic None ?N sample_request sample_ctx"
    using callback_is_noop [OF n, of guarded_logic None sample_ctx]
      callback_is_noop [OF n, of sample_logic None sample_ctx] l
    by simp
  have 2: "route_handler guarded_logic None (Some ?g) sample_request sample_ctx
     = route_handler sample_logic None (Some ?g) sample_request sample_ctx"
    using callback_is_noop [OF s, of guarded_logic None sample_ctx]
      callback_is_noop [OF s, of sample_logic None sample_ctx] l
    by simp
  have "snd (route_handler sample_logic None (Some ?g) sample_request sample_ctx)
     = Inr \<lparr> status = 200, resp_body = JsonBody (JObj [(''ok'', JBool True)]), headers = [] \<rparr>"
    by (simp add: route_handler_def guard_block_def guard_of_def sample_options_def
        permissionHandlerGenerator_of_def guard_handler_def try_block_def params_step_def
        query_step_def body_step_def bind_flow_def sample_ctx_def sample_logic_def httpOk_def
        Response_json_def null_body_status_def returning_def)
  with 1 2 show ?thesis by simp
qed

lemma catch_block_ZodError:
  "catch_block (ZodError issues)
     = ([], Inr \<lparr> status = 400,
                  resp_body = JsonBody (JObj [(''error'', JStr ''Validation error''),
                                              (''issues'', JArr issues)]),
                  headers = [] \<rparr>)"
  by (simp add: catch_block_def Response_json_def null_body_status_def)

lemma httpError_accepted:
  assumes "200 \<le> st" and "st \<le> 599" and "\<not> null_body_status st"
  shows "httpError st msg
     = Inr \<lparr> status = st,
             resp_body = JsonBody (JObj [(''error'', JObj [(''message'', JStr msg)])]),
             headers = [] \<rparr>"
  using assms by (simp add: httpError_def Response_json_def)

lemma catch_block_OtherError:
  "catch_block (OtherError n)
     = ([EvLog (OtherError n)],
        Inr \<lparr> status = 500,
              resp_body = JsonBody (JObj [(''error'', JObj [(''message'', JStr ''Internal server error'')])]),
              headers = [] \<rparr>)"
  by (simp add: catch_block_def httpError_def Response_json_def null_body_status_def)

lemma catch_block_HttpError: "catch_block (HttpError st msg) = ([], httpError st msg)"
  by (simp add: catch_block_def)

lemma guard_block_cases:
  "(\<exists>t e. guard_block guard rq = (t, Raise e))
   \<or> (\<exists>t r. guard_block guard rq = (t, Respond r))
   \<or> (\<exists>t hrp ad. guard_block guard rq = (t, Continue (hrp, ad)))"
proof -
  obtain t f where gb: "guard_block guard rq = (t, f)" by (cases "guard_block guard rq")
  show ?thesis
  proof (cases f)
    case (Continue p)
    then show ?thesis using gb by (cases p) simp
  next
    case (Respond r)
    then show ?thesis using gb by simp
  next
    case (Raise e)
    then show ?thesis using gb by simp
  qed
qed

lemma route_handler_after_guard:
  assumes "guard_block guard rq = (t, Continue (hrp, ad))"
    and "try_block fn schemas rq ctx hrp ad = (t', f)"
  shows "snd (route_handler fn schemas guard rq ctx)
           = (case f of Continue r \<Rightarrow> Inr r | Respond r \<Rightarrow> Inr r
                      | Raise e \<Rightarrow> snd (catch_block e))"
  using assms by (simp add: route_handler_def split: flow.splits prod.splits)

text \<open>
  What the \<open>catch\<close> of the handler converts. When the guard block does not throw, every
  error raised in steps 2 to 5 (awaiting the parameters, validation, body decoding, the
  user logic and the resource-permission callback it calls) reaches the \<open>catch\<close> and
  becomes one response: 400 \<open>Validation error\<close> for the validation engine's exception,
  \<open>httpError status message\<close> for a status-carrying error, 500 \<open>Internal server error\<close>
  (after logging) for anything else. The handler then rejects only when the status of a
  thrown status-carrying error is one the platform refuses for a response with a body
  (outside 200..599, or a null-body status).
\<close>

lemma errors_after_guard_become_responses:
  assumes "\<forall>t e. guard_block guard rq \<noteq> (t, Raise e)"
  shows "((\<exists>r. snd (route_handler fn schemas guard rq ctx) = Inr r)
          \<or> (\<exists>t hrp ad t' st msg.
                guard_block guard rq = (t, Continue (hrp, ad))
              \<and> try_block fn schemas rq ctx hrp ad = (t', Raise (HttpError st msg))
              \<and> (st < 200 \<or> 599 < st \<or> null_body_status st)))
       \<and> (\<forall>t hrp ad t' issues.
             guard_block guard rq = (t, Continue (hrp, ad))
           \<and> try_block fn schemas rq ctx hrp ad = (t', Raise (ZodError issues))
           \<longrightarrow> snd (route_handler fn schemas guard rq ctx)
                 = Inr \<lparr> status = 400,
                         resp_body = JsonBody (JObj [(''error'', JStr ''Validation error''),
                                                     (''issues'', JArr issues)]),
                         headers = [] \<rparr>)
       \<and> (\<forall>t hrp ad t' st msg.
             guard_block guard rq = (t, Continue (hrp, ad))
           \<and> try_block fn schemas rq ctx hrp ad = (t', Raise (HttpError st msg))
           \<and> 200 \<le> st \<and> st \<le> 599 \<and> \<not> null_body_status st
           \<longrightarrow> snd (route_handler fn schemas guard rq ctx)
                 = Inr \<lparr> status = st,
                         resp_body = JsonBody (JObj [(''error'', JObj [(''message'', JStr msg)])]),
                         headers = [] \<rparr>)
       \<and> (\<forall>t hrp ad t' n.
             guard_block guard rq = (t, Continue (hrp, ad))
           \<and> try_block fn schemas rq ctx hrp ad = (t', Raise (OtherError n))
           \<longrightarrow> route_handler fn schemas guard rq ctx
                 = (t @ t' @ [EvLog (OtherError n)],
                    Inr \<lparr> status = 500,
                          resp_body = JsonBody (JObj [(''error'',
                             JObj [(''message'', JStr ''Internal server error'')])]),
                          headers = [] \<rparr>))"
proof (intro conjI allI impI)
  show "(\<exists>r. snd (route_handler fn schemas guard rq ctx) = Inr r)
          \<or> (\<exists>t hrp ad t' st msg.
                guard_block guard rq = (t, Continue (hrp, ad))
              \<and> try_block fn schemas rq ctx hrp ad = (t', Raise (HttpError st msg))
              \<and> (st < 200 \<or> 599 < st \<or> null_body_status st))"
  proof -
    from guard_block_cases [of guard rq] assms
    consider (resp) t r where "guard_block guard rq = (t, Respond r)"
      | (cont) t hrp ad where "guard_block guard rq = (t, Continue (hrp, ad))"
      by blast
    then show ?thesis
    proof cases
      case resp
      then show ?thesis by (simp add: route_handler_def)
    next
      case cont
      obtain t' f where tb: "try_block fn schemas rq ctx hrp ad = (t', f)"
        by (cases "try_block fn schemas rq ctx hrp ad")
      note rh = route_handler_after_guard [OF cont tb]
      show ?thesis
      proof (cases f)
        case (Continue r)
        then show ?thesis using rh by simp
      next
        case (Respond r)
        then show ?thesis using rh by simp
      next
        case (Raise e)
        show ?thesis
        proof (cases e)
          case (ZodError issues)
          then show ?thesis using rh Raise by (simp add: catch_block_ZodError)
        next
          case (OtherError n)
          then show ?thesis using rh Raise by (simp add: catch_block_OtherError)
        next
          case (HttpError st msg)
          show ?thesis
          proof (cases "st < 200 \<or> 599 < st \<or> null_body_status st")
            case True
            then show ?thesis using cont tb Raise HttpError by blast
          next
            case False
            then have "httpError st msg
               = Inr \<lparr> status = st,
                   resp_body = JsonBody (JObj [(''error'', JObj [(''message'', JStr msg)])]),
                   headers = [] \<rparr>"
              using httpError_accepted [of st msg] by simp
            then show ?thesis using rh Raise HttpError by (simp add: catch_block_HttpError)
          qed
        qed
      qed
    qed
  qed
next
  fix t hrp ad t' issues
  assume "guard_block guard rq = (t, Continue (hrp, ad))
           \<and> try_block fn schemas rq ctx hrp ad = (t', Raise (ZodError issues))"
  then show "snd (route_handler fn schemas guard rq ctx)
                 = Inr \<lparr> status = 400,
                         resp_body = JsonBody (JObj [(''error'', JStr ''Validation error''),
                                                     (''issues'', JArr issues)]),
                         headers = [] \<rparr>"
    by (simp add: route_handler_def catch_block_ZodError)
next
  fix t hrp ad t' st msg
  assume "guard_block guard rq = (t, Continue (hrp, ad))
           \<and> try_block fn schemas rq ctx hrp ad = (t', Raise (HttpError st msg))
           \<and> 200 \<le> st \<and> st \<le> 599 \<and> \<not> null_body_status st"
  then show "snd (route_handler fn schemas guard rq ctx)
                 = Inr \<lparr> status = st,
                         resp_body = JsonBody (JObj [(''error'', JObj [(''message'', JStr msg)])]),
                         headers = [] \<rparr>"
    by (simp add: route_handler_def catch_block_HttpError httpError_accepted)
next
  fix t hrp ad t' n
  assume "guard_block guard rq = (t, Continue (hrp, ad))
           \<and> try_block fn schemas rq ctx hrp ad = (t', Raise (OtherError n))"
  then show "route_handler fn schemas guard rq ctx
                 = (t @ t' @ [EvLog (OtherError n)],
                    Inr \<lparr> status = 500,
                          resp_body = JsonBody (JObj [(''error'',
                             JObj [(''message'', JStr ''Internal server error'')])]),
                          headers = [] \<rparr>)"
    by (simp add: route_handler_def catch_block_OtherError)
qed

lemmas handler_eval =
  route_handler_def guard_block_def guard_of_def failing_auth_options_def strict_options_def
  visitor_options_def sample_options_def permissionHandlerGenerator_of_def Unauthorized_def
  Forbidden_def initGuards_def guard_handler_def resource_permission_def
  try_block_def params_step_def query_step_def body_step_def bind_flow_def sample_ctx_def
  returning_def catch_block_def httpError_def Response_json_def null_body_status_def
  guarded_logic_def forbidden_response_def

text \<open>
  Claim C1. The claim has every error of the pipeline, an error thrown by the guard's
  \<open>auth\<close> function or by permission-handler generation included, caught and converted to
  one response. The guard block stands before the \<open>try\<close> of the handler: on a route whose
  guard's \<open>auth\<close> function throws \<open>Unauthorized\<close>, the handler rejects with that error and
  builds no response, and so it does with the \<open>Forbidden\<close> that a basic check throws. The
  same errors thrown inside the \<open>try\<close> are converted: \<open>Forbidden\<close> from the
  resource-permission callback is answered with 403, \<open>Unauthorized\<close> from the user logic
  with 401.
\<close>

theorem guard_errors_leave_handler:
  "route_handler sample_logic (Some accept_all)
      (Some (guard_of failing_auth_options ''adminOnly'')) sample_request sample_ctx
     = ([EvGenerate], Inl (HttpError 401 ''Unauthorized''))
   \<and> map_of (initGuards failing_auth_options) ''adminOnly''
       = Some (guard_of failing_auth_options ''adminOnly'')
   \<and> route_handler sample_logic (Some accept_all)
        (Some (guard_of strict_options ''adminOnly'')) sample_request sample_ctx
     = ([EvGenerate, EvCheck], Inl (HttpError 403 ''Forbidden''))
   \<and> route_handler guarded_logic None (Some (guard_of visitor_options ''canEdit''))
        sample_request sample_ctx
     = ([EvGenerate, EvAwaitParams, EvUserLogic], Inr forbidden_response)
   \<and> route_handler (\<lambda>c. Inl (Unauthorized None)) None
        (None :: (string, string, bool) Guard option) sample_request sample_ctx
     = ([EvAwaitParams, EvUserLogic],
        Inr \<lparr> status = 401,
              resp_body = JsonBody (JObj [(''error'', JObj [(''message'', JStr ''Unauthorized'')])]),
              headers = [] \<rparr>)"
  by (simp add: handler_eval)

text \<open>
  An error with status 150 thrown by the user logic is caught, but building its response
  throws in the \<open>catch\<close>: the platform refuses the status.
\<close>

lemma refused_status_leaves_catch:
  "route_handler (\<lambda>c. Inl (HttpError 150 ''Odd'')) None
        (None :: (string, string, bool) Guard option) sample_request sample_ctx
     = ([EvAwaitParams, EvUserLogic], Inl (OtherError ''RangeError''))"
  by (simp add: handler_eval)

lemma errors_after_guard_example:
  "(\<forall>t e. guard_block (Some (guard_of visitor_options ''canEdit'')) sample_request \<noteq> (t, Raise e))
   \<and> snd (route_handler guarded_logic None (Some (guard_of visitor_options ''canEdit''))
          sample_request sample_ctx)
       = Inr forbidden_response"
proof -
  let ?p = "\<lparr> plength = 2,
              pcall = (\<lambda>isAdmin resource.
                 case resource of None \<Rightarrow> Inl (OtherError ''TypeError'')
                                | Some owner \<Rightarrow> Inr (isAdmin \<or> owner = ''me'')) \<rparr>
            :: (string, bool) permission"
  let ?ph = "\<lparr> handler = guard_handler ?p False, needResource = True, ph_authData = False \<rparr>"
  let ?G = "Some (guard_of visitor_options ''canEdit'')"
  have gb: "guard_block ?G sample_request
              = ([EvGenerate], Continue (resource_permission ?ph, Some False))"
    by (simp add: guard_block_def guard_of_def visitor_options_def sample_options_def
        permissionHandlerGenerator_of_def)
  have h: "\<forall>t e. guard_block ?G sample_request \<noteq> (t, Raise e)"
    unfolding gb by simp
  have tb: "try_block guarded_logic None sample_request sample_ctx
              (resource_permission ?ph) (Some False)
            = ([EvAwaitParams, EvUserLogic], Raise (HttpError 403 ''Forbidden''))"
    by (simp add: try_block_def params_step_def query_step_def body_step_def bind_flow_def
        sample_ctx_def guarded_logic_def resource_permission_def guard_handler_def
        Forbidden_def returning_def)
  have "snd (route_handler guarded_logic None ?G sample_request sample_ctx)
       = Inr \<lparr> status = 403,
               resp_body = JsonBody (JObj [(''error'', JObj [(''message'', JStr ''Forbidden'')])]),
               headers = [] \<rparr>"
    using errors_after_guard_become_responses [OF h, of guarded_logic None sample_ctx] gb tb
    by (simp add: null_body_status_def)
  then show ?thesis using h by (simp add: forbidden_response_def)
qed

lemma decode_body_form:
  assumes "str_startsWith (contentType_of rq) ''multipart/form-data''"
  shows "decode_body rq
           = ([EvReadForm],
              case formData rq of
                Inl e \<Rightarrow> Respond invalid_body_response
              | Inr fd \<Rightarrow> Continue (formDataToObject fd))"
  using assms
  by (simp add: decode_body_def contentType_of_def Let_def Response_json_def returning_def
      null_body_status_def invalid_body_response_def split: sum.splits)

lemma decode_body_json:
  assumes "\<not> str_startsWith (contentType_of rq) ''multipart/form-data''"
    and "str_includes (contentType_of rq) ''application/json'' \<or> contentType_of rq = []"
  shows "decode_body rq
           = ([EvReadJson],
              case json rq of
                Inl e \<Rightarrow> Respond invalid_body_response
              | Inr v \<Rightarrow> Continue v)"
  using assms
  by (auto simp add: decode_body_def contentType_of_def Let_def Response_json_def returning_def
      null_body_status_def invalid_body_response_def split: sum.splits)

lemma decode_body_unsupported:
  assumes "\<not> str_startsWith (contentType_of rq) ''multipart/form-data''"
    and "\<not> str_includes (contentType_of rq) ''application/json''"
    and "contentType_of rq \<noteq> []"
  shows "decode_body rq = ([], Respond (unsupported_response (contentType_of rq)))"
  using assms
  by (simp add: decode_body_def contentType_of_def Let_def Response_json_def returning_def
      null_body_status_def unsupported_response_def)

lemma route_handler_body_respond:
  assumes "guard_block guard rq = (t0, Continue (hrp, ad))"
    and "params_step schemas ctx = (t1, Continue pv)"
    and "query_step schemas rq = (t2, Continue qv)"
    and "body_step schemas rq = (t3, Respond r)"
  shows "route_handler fn schemas guard rq ctx = (t0 @ t1 @ t2 @ t3, Inr r)"
  using assms by (simp add: route_handler_def try_block_def bind_flow_def)

lemma body_step_decode_respond:
  assumes "schemas = Some s" and "bodySchema s = Some schema"
    and "decode_body rq = (t, Respond r)"
  shows "body_step schemas rq = (t, Respond r)"
  using assms by (simp add: body_step_def bind_flow_def)

lemma body_step_decode_continue:
  assumes "schemas = Some s" and "bodySchema s = Some schema"
    and "decode_body rq = (t, Continue v)"
  shows "body_step schemas rq = (t @ [EvValidate Body], validateWithSchema schema v Body)"
  using assms by (simp add: body_step_def bind_flow_def)

text \<open>
  Claim C6, as the code has it. For a request that reaches the body step (the guard
  block passed, parameters and query were accepted) with a body schema configured, the
  content type is tested in this order: a value that starts with \<open>multipart/form-data\<close> is
  decoded as form fields, also when it contains \<open>application/json\<close>; otherwise a value that
  contains \<open>application/json\<close>, and an absent or empty content type, is parsed as JSON; any
  other value ends the pipeline with status 415 and the body
  \<open>{error: "Unsupported Content-Type: <type>"}\<close>. A decode exception ends it with status 400
  and \<open>{error: "Invalid request body"}\<close>; the decoded value goes to the body schema.
\<close>

theorem body_decoding_by_content_type:
  assumes "guard_block guard rq = (t0, Continue (hrp, ad))"
    and "params_step schemas ctx = (t1, Continue pv)"
    and "query_step schemas rq = (t2, Continue qv)"
    and "schemas = Some s" and "bodySchema s = Some schema"
  shows
    "(str_startsWith (contentType_of rq) ''multipart/form-data'' \<longrightarrow>
        (\<forall>fd. formData rq = Inr fd \<longrightarrow>
           body_step schemas rq
             = ([EvReadForm, EvValidate Body],
                validateWithSchema schema (formDataToObject fd) Body))
      \<and> (\<forall>e. formData rq = Inl e \<longrightarrow>
           route_handler fn schemas guard rq ctx
             = (t0 @ t1 @ t2 @ [EvReadForm], Inr invalid_body_response)))
   \<and> (\<not> str_startsWith (contentType_of rq) ''multipart/form-data''
        \<and> (str_includes (contentType_of rq) ''application/json'' \<or> contentType_of rq = []) \<longrightarrow>
        (\<forall>v. json rq = Inr v \<longrightarrow>
           body_step schemas rq
             = ([EvReadJson, EvValidate Body], validateWithSchema schema v Body))
      \<and> (\<forall>e. json rq = Inl e \<longrightarrow>
           route_handler fn schemas guard rq ctx
             = (t0 @ t1 @ t2 @ [EvReadJson], Inr invalid_body_response)))
   \<and> (\<not> str_startsWith (contentType_of rq) ''multipart/form-data''
        \<and> \<not> str_includes (contentType_of rq) ''application/json''
        \<and> contentType_of rq \<noteq> [] \<longrightarrow>
        route_handler fn schemas guard rq ctx
          = (t0 @ t1 @ t2, Inr (unsupported_response (contentType_of rq))))
   \<and> status invalid_body_response = 400
   \<and> resp_body invalid_body_response = JsonBody (JObj [(''error'', JStr ''Invalid request body'')])
   \<and> status (unsupported_response (contentType_of rq)) = 415
   \<and> resp_body (unsupported_response (contentType_of rq))
       = JsonBody (JObj [(''error'', JStr (''Unsupported Content-Type: '' @ contentType_of rq))])"
proof (intro conjI impI allI)
  fix fd
  assume "str_startsWith (contentType_of rq) ''multipart/form-data''" and "formData rq = Inr fd"
  then have "decode_body rq = ([EvReadForm], Continue (formDataToObject fd))"
    by (simp add: decode_body_form)
  from body_step_decode_continue [OF assms(4,5) this]
  show "body_step schemas rq
             = ([EvReadForm, EvValidate Body],
                validateWithSchema schema (formDataToObject fd) Body)"
    by simp
next
  fix e
  assume "str_startsWith (contentType_of rq) ''multipart/form-data''" and "formData rq = Inl e"
  then have "decode_body rq = ([EvReadForm], Respond invalid_body_response)"
    by (simp add: decode_body_form)
  from route_handler_body_respond [OF assms(1,2,3) body_step_decode_respond [OF assms(4,5) this]]
  show "route_handler fn schemas guard rq ctx
             = (t0 @ t1 @ t2 @ [EvReadForm], Inr invalid_body_response)" .
next
  fix v
  assume "\<not> str_startsWith (contentType_of rq) ''multipart/form-data''
        \<and> (str_includes (contentType_of rq) ''application/json'' \<or> contentType_of rq = [])"
    and "json rq = Inr v"
  then have "decode_body rq = ([EvReadJson], Continue v)"
    by (simp add: decode_body_json)
  from body_step_decode_continue [OF assms(4,5) this]
  show "body_step schemas rq
             = ([EvReadJson, EvValidate Body], validateWithSchema schema v Body)"
    by simp
next
  fix e
  assume "\<not> str_startsWith (contentType_of rq) ''multipart/form-data''
        \<and> (str_includes (contentType_of rq) ''application/json'' \<or> contentType_of rq = [])"
    and "json rq = Inl e"
  then have "decode_body rq = ([EvReadJson], Respond invalid_body_response)"
    by (simp add: decode_body_json)
  from route_handler_body_respond [OF assms(1,2,3) body_step_decode_respond [OF assms(4,5) this]]
  show "route_handler fn schemas guard rq ctx
             = (t0 @ t1 @ t2 @ [EvReadJson], Inr invalid_body_response)" .
next
  assume "\<not> str_startsWith (contentType_of rq) ''multipart/form-data''
        \<and> \<not> str_includes (contentType_of rq) ''application/json''
        \<and> contentType_of rq \<noteq> []"
  then have "decode_body rq = ([], Respond (unsupported_response (contentType_of rq)))"
    by (simp add: decode_body_unsupported)
  from route_handler_body_respond [OF assms(1,2,3) body_step_decode_respond [OF assms(4,5) this]]
  show "route_handler fn schemas guard rq ctx
          = (t0 @ t1 @ t2, Inr (unsupported_response (contentType_of rq)))"
    by simp
qed (simp_all add: invalid_body_response_def unsupported_response_def)

text \<open>
  The claim as stated fails on two content types. The value
  \<open>multipart/form-data; boundary=application/json\<close> contains \<open>application/json\<close> and is
  decoded as form fields, not as JSON. A content type that is present and empty is none of
  the claim's first two cases, and is parsed as JSON, not refused with 415.
\<close>

theorem content_type_cases_counterexample:
  "str_includes ''multipart/form-data; boundary=application/json'' ''application/json''
   \<and> route_handler echo_logic (Some accept_all) (None :: (string, string, bool) Guard option)
        (json_and_form_request (Some ''multipart/form-data; boundary=application/json''))
        sample_ctx
     = ([EvAwaitParams, EvValidate Parameters, EvValidate Query, EvReadForm, EvValidate Body,
         EvUserLogic],
        Inr \<lparr> status = 200, resp_body = JsonBody (JObj [(''from'', JStr ''form'')]),
              headers = [] \<rparr>)
   \<and> content_type (json_and_form_request (Some [])) = Some []
   \<and> route_handler echo_logic (Some accept_all) (None :: (string, string, bool) Guard option)
        (json_and_form_request (Some [])) sample_ctx
     = ([EvAwaitParams, EvValidate Parameters, EvValidate Query, EvReadJson, EvValidate Body,
         EvUserLogic],
        Inr \<lparr> status = 200, resp_body = JsonBody (JObj [(''from'', JStr ''json'')]),
              headers = [] \<rparr>)"
  by (simp add: route_handler_def guard_block_def try_block_def params_step_def
      query_step_def raw_query_def body_step_def decode_body_def contentType_of_def bind_flow_def
      sample_ctx_def accept_all_def json_and_form_request_def echo_logic_def httpOk_def
      Response_json_def null_body_status_def returning_def validateWithSchema_def
      fromEntries_def formDataToObject_def)

lemma sample_steps:
  "guard_block (None :: (string, string, bool) Guard option) rq = ([], Continue (noop_permission, None))"
  "params_step (Some accept_all) sample_ctx
     = ([EvAwaitParams, EvValidate Parameters], Continue JUndefined)"
  "searchParams rq = [] \<Longrightarrow>
   query_step (Some accept_all) rq = ([EvValidate Query], Continue (JObj []))"
  by (simp_all add: guard_block_def params_step_def query_step_def raw_query_def sample_ctx_def
      accept_all_def validateWithSchema_def fromEntries_def)

theorem body_decoding_by_content_type_witness:
  "route_handler echo_logic (Some accept_all) (None :: (string, string, bool) Guard option)
        (malformed_request (Some ''text/plain'')) sample_ctx
     = ([EvAwaitParams, EvValidate Parameters, EvValidate Query],
        Inr (unsupported_response ''text/plain''))
   \<and> route_handler echo_logic (Some accept_all) (None :: (string, string, bool) Guard option)
        (malformed_request (Some ''application/json; charset=utf-8'')) sample_ctx
     = ([EvAwaitParams, EvValidate Parameters, EvValidate Query, EvReadJson],
        Inr invalid_body_response)
   \<and> route_handler echo_logic (Some accept_all) (None :: (string, string, bool) Guard option)
        (malformed_request None) sample_ctx
     = ([EvAwaitParams, EvValidate Parameters, EvValidate Query, EvReadJson],
        Inr invalid_body_response)
   \<and> route_handler echo_logic (Some accept_all) (None :: (string, string, bool) Guard option)
        (malformed_request (Some ''multipart/form-data; boundary=x'')) sample_ctx
     = ([EvAwaitParams, EvValidate Parameters, EvValidate Query, EvReadForm],
        Inr invalid_body_response)
   \<and> body_step (Some accept_all) (json_and_form_request (Some ''multipart/form-data; boundary=x''))
     = ([EvReadForm, EvValidate Body], Continue (JObj [(''from'', JStr ''form'')]))
   \<and> body_step (Some accept_all) (json_and_form_request (Some ''application/json''))
     = ([EvReadJson, EvValidate Body], Continue (JObj [(''from'', JStr ''json'')]))"
proof -
  have b: "bodySchema accept_all = Some (\<lambda>v. Success v)"
    by (simp add: accept_all_def)
  have q: "searchParams (malformed_request ct) = []" "searchParams (json_and_form_request ct) = []"
    for ct
    by (simp_all add: malformed_request_def json_and_form_request_def)
  have g: "guard_block (None :: (string, string, bool) Guard option) rq
             = ([], Continue (noop_permission, None))" for rq
    by (rule sample_steps(1))
  note p = sample_steps(2)
  note qm = sample_steps(3) [OF q(1)]
  note qj = sample_steps(3) [OF q(2)]
  show ?thesis
    using body_decoding_by_content_type [OF g p qm refl b, of "Some ''text/plain''" echo_logic]
      body_decoding_by_content_type
        [OF g p qm refl b, of "Some ''application/json; charset=utf-8''" echo_logic]
      body_decoding_by_content_type [OF g p qm refl b, of None echo_logic]
      body_decoding_by_content_type
        [OF g p qm refl b, of "Some ''multipart/form-data; boundary=x''" echo_logic]
      body_decoding_by_content_type
        [OF g p qj refl b, of "Some ''multipart/form-data; boundary=x''" echo_logic]
      body_decoding_by_content_type [OF g p qj refl b, of "Some ''application/json''" echo_logic]
    by (simp add: contentType_of_def malformed_request_def json_and_form_request_def
        validateWithSchema_def formDataToObject_def)
qed

section \<open>Properties of the default query schema\<close>













text \<open>
  The schema built by \<open>withDefaultQuerySchema\<close> accepts a value only when both schemas
  parse it without an issue, the cross-field check holds and the two values merge: neither
  the field checks nor the cross-field check can be bypassed.
\<close>

lemma extended_schema_accepts_only_ordered:
  assumes "safeParse (withDefaultQuerySchema Date QuerySchema mergeValues schema) v = Success c"
  shows "\<exists>x q. schema v = Valid x \<and> QuerySchema v = Valid q \<and> updated_order_check Date q
               \<and> mergeValues x q = Some c"
proof (cases "schema v")
  case (Valid x)
  show ?thesis
  proof (cases "QuerySchema v")
    case (Valid q)
    with \<open>schema v = Valid x\<close> assms show ?thesis
      by (cases "mergeValues x q"; cases "updated_order_check Date q")
         (simp_all add: withDefaultQuerySchema_def DefaultQuerySchemaRefined_def refine_def
            zod_and_def handleParsed_def Let_def value_in_def issues_in_def isDirty_def
            safeParse_def handleResult_def)
  next
    case (Dirty q issues)
    with \<open>schema v = Valid x\<close> assms show ?thesis
      by (cases "mergeValues x q"; cases "updated_order_check Date q")
         (simp_all add: withDefaultQuerySchema_def DefaultQuerySchemaRefined_def refine_def
            zod_and_def handleParsed_def Let_def value_in_def issues_in_def isDirty_def
            safeParse_def handleResult_def split: if_splits)
  next
    case (Aborted issues)
    with \<open>schema v = Valid x\<close> assms show ?thesis
      by (simp add: withDefaultQuerySchema_def DefaultQuerySchemaRefined_def refine_def
            zod_and_def handleParsed_def Let_def value_in_def issues_in_def isDirty_def
            safeParse_def handleResult_def split: if_splits)
  next
    case (Thrown e)
    with \<open>schema v = Valid x\<close> assms show ?thesis
      by (simp add: withDefaultQuerySchema_def DefaultQuerySchemaRefined_def refine_def
            zod_and_def safeParse_def)
  qed
next
  case (Dirty x issues)
  with assms show ?thesis
    by (cases "QuerySchema v")
       (auto simp add: withDefaultQuerySchema_def DefaultQuerySchemaRefined_def refine_def
          zod_and_def handleParsed_def Let_def value_in_def issues_in_def isDirty_def
          safeParse_def handleResult_def split: if_splits option.splits)
next
  case (Aborted issues)
  with assms show ?thesis
    by (cases "QuerySchema v")
       (auto simp add: withDefaultQuerySchema_def DefaultQuerySchemaRefined_def refine_def
          zod_and_def handleParsed_def Let_def value_in_def issues_in_def isDirty_def
          safeParse_def handleResult_def split: if_splits option.splits)
next
  case (Thrown e)
  with assms show ?thesis
    by (simp add: withDefaultQuerySchema_def zod_and_def safeParse_def)
qed





text \<open>
  On dirty data the check still runs: a query whose \<open>updated_after\<close> is not a timestamp is
  answered with the issue of the field and the issue of the cross-field check.
\<close>

lemma dirty_query_reports_both_issues:
  "sample_extended_schema (raw_query (updated_request ''tomorrow'' ''2024-01-01T00:00:00Z''))
     = Failure [JObj [(''code'', JStr ''invalid_string''),
                      (''path'', JArr [JStr ''updated_after''])],
                custom_issue order_message]"
  by (simp add: sample_extended_schema_def safeParse_def withDefaultQuerySchema_def
      zod_and_def handleParsed_def DefaultQuerySchemaRefined_def refine_def
      sample_QuerySchema_def raw_query_def updated_request_def fromEntries_def
      string_field_def datetime_issues_def sample_Date_def Let_def issues_in_def value_in_def
      isDirty_def handleResult_def updated_order_check_def truthy_def date_le_def)

section \<open>Properties of the download header\<close>

lemma unat_code_unit: "unat (of_nat n :: 16 word) = n" if "n < 65536"
  using that by (simp add: unat_of_nat)

lemma code_unit_eq_iff: "(c :: 16 word) = d \<longleftrightarrow> unat c = unat d"
  by (simp add: word_unat_eq_iff)

lemma unat_hex_digit_upper:
  assumes "d < 16"
  shows "unat (hex_digit_upper d) = (if d < 10 then 0x30 + d else 0x37 + d)"
proof (cases "d < 10")
  case True
  have "unat (of_nat (0x30 + d) :: 16 word) = 0x30 + d"
    by (rule unat_code_unit) (use True in arith)
  then show ?thesis using True by (simp only: hex_digit_upper_def if_True)
next
  case False
  have "unat (of_nat (0x41 + (d - 10)) :: 16 word) = 0x41 + (d - 10)"
    by (rule unat_code_unit) (use assms in arith)
  moreover have "0x41 + (d - 10) = 0x37 + d" using False by arith
  ultimately show ?thesis using False by (simp only: hex_digit_upper_def if_False)
qed

lemma unhex_hex_digit_upper:
  assumes "d < 16"
  shows "unhex (hex_digit_upper d) = Some d"
  using assms by (auto simp add: unhex_def unat_hex_digit_upper Let_def)

lemma hex_digit_upper_range:
  assumes "d < 16"
  shows "0x30 \<le> unat (hex_digit_upper d) \<and> unat (hex_digit_upper d) \<le> 0x46"
  using assms by (simp add: unat_hex_digit_upper)

lemma percent_octets_percent_octet:
  assumes "b < 256"
  shows "percent_octets (percent_octet b @ rest) = cons_option b (percent_octets rest)"
proof -
  have "b div 16 < 16" and "b mod 16 < 16" using assms by simp_all
  moreover have "b div 16 * 16 + b mod 16 = b" by simp
  ultimately show ?thesis
    by (simp add: percent_octet_def unhex_hex_digit_upper)
qed

lemma percent_octets_escaped:
  assumes "\<forall>b \<in> set bs. b < 256"
  shows "percent_octets (concat (map percent_octet bs) @ rest)
           = (case percent_octets rest of None \<Rightarrow> None | Some r \<Rightarrow> Some (bs @ r))"
  using assms
proof (induction bs)
  case Nil
  then show ?case by (simp split: option.splits)
next
  case (Cons b bs)
  then show ?case
    by (simp add: percent_octets_percent_octet cons_option_def split: option.splits)
qed

lemma escape_quote_parens_append:
  "escape_quote_parens (x @ y) = escape_quote_parens x @ escape_quote_parens y"
  by (simp add: escape_quote_parens_def)

lemma escape_star_append: "escape_star (x @ y) = escape_star x @ escape_star y"
  by (simp add: escape_star_def)

lemma escape_plain:
  assumes "\<forall>c \<in> set s. 0x30 \<le> unat c \<or> unat c = 0x25"
  shows "escape_star (escape_quote_parens s) = s"
  using assms
proof (induction s)
  case Nil
  then show ?case by (simp add: escape_star_def escape_quote_parens_def)
next
  case (Cons c s)
  from Cons.prems have c: "0x30 \<le> unat c \<or> unat c = 0x25" by simp
  then have "c \<noteq> 0x27" "c \<noteq> 0x28" "c \<noteq> 0x29" "c \<noteq> 0x2A"
    by (auto simp add: code_unit_eq_iff)
  then have "escape_star (escape_quote_parens [c]) = [c]"
    by (simp add: escape_star_def escape_quote_parens_def)
  moreover have "escape_star (escape_quote_parens s) = s"
    using Cons by simp
  ultimately show ?case
    using escape_quote_parens_append [of "[c]" s] escape_star_append [of "escape_quote_parens [c]"]
    by simp
qed

lemma escape_percent_octet:
  assumes "b < 256"
  shows "escape_star (escape_quote_parens (percent_octet b)) = percent_octet b"
proof -
  have "b div 16 < 16" and "b mod 16 < 16" using assms by simp_all
  then have "\<forall>c \<in> set (percent_octet b). 0x30 \<le> unat c \<or> unat c = 0x25"
    using hex_digit_upper_range [of "b div 16"] hex_digit_upper_range [of "b mod 16"]
    by (simp add: percent_octet_def)
  then show ?thesis by (rule escape_plain)
qed

lemma escape_escaped:
  assumes "\<forall>b \<in> set bs. b < 256"
  shows "escape_star (escape_quote_parens (concat (map percent_octet bs)))
           = concat (map percent_octet bs)"
  using assms
proof (induction bs)
  case Nil
  then show ?case by (simp add: escape_star_def escape_quote_parens_def)
next
  case (Cons b bs)
  then show ?case
    by (simp add: escape_quote_parens_append escape_star_append escape_percent_octet)
qed

lemma unescaped_ascii:
  assumes "uri_unescaped c"
  shows "unat c < 0x80" and "c \<noteq> 0x25"
    and "\<not> is_leading_surrogate c" and "\<not> is_trailing_surrogate c"
  using assms
  by (auto simp add: uri_unescaped_def Let_def is_leading_surrogate_def is_trailing_surrogate_def
      code_unit_eq_iff)

lemma escaped_marks:
  "escape_star (escape_quote_parens [0x27]) = [0x25, 0x32, 0x37]"
  "escape_star (escape_quote_parens [0x28]) = [0x25, 0x32, 0x38]"
  "escape_star (escape_quote_parens [0x29]) = [0x25, 0x32, 0x39]"
  "escape_star (escape_quote_parens [0x2A]) = [0x25, 0x32, 0x41]"
  by (simp_all add: escape_star_def escape_quote_parens_def toUpperCase_def hex_digit_lower_def
      js_def)

lemma percent_octets_unescaped:
  assumes "uri_unescaped c"
  shows "percent_octets (escape_star (escape_quote_parens [c]) @ rest)
           = cons_option (unat c) (percent_octets rest)"
proof -
  consider "c = 0x27" | "c = 0x28" | "c = 0x29" | "c = 0x2A"
    | "c \<noteq> 0x27 \<and> c \<noteq> 0x28 \<and> c \<noteq> 0x29 \<and> c \<noteq> 0x2A"
    by blast
  then show ?thesis
  proof cases
    case 1
    then show ?thesis by (simp add: escaped_marks unhex_def)
  next
    case 2
    then show ?thesis by (simp add: escaped_marks unhex_def)
  next
    case 3
    then show ?thesis by (simp add: escaped_marks unhex_def)
  next
    case 4
    then show ?thesis by (simp add: escaped_marks unhex_def)
  next
    case 5
    then have "escape_star (escape_quote_parens [c]) = [c]"
      by (simp add: escape_star_def escape_quote_parens_def)
    then show ?thesis
      using unescaped_ascii(1,2) [OF assms] by simp
  qed
qed

lemma utf8_encode_octets:
  assumes "cp < 0x110000"
  shows "\<forall>b \<in> set (utf8_encode cp). b < 256"
  using assms by (auto simp add: utf8_encode_def)

lemma pair_code_point_range:
  assumes "is_leading_surrogate c" and "is_trailing_surrogate d"
  shows "0x10000 \<le> UTF16SurrogatePairToCodePoint c d"
    and "UTF16SurrogatePairToCodePoint c d < 0x110000"
  using assms
  by (auto simp add: UTF16SurrogatePairToCodePoint_def is_leading_surrogate_def
      is_trailing_surrogate_def)

lemma code_unit_range: "unat (c :: 16 word) < 0x110000"
proof -
  have "unat c < 2 ^ LENGTH(16)" by (rule unsigned_less)
  then show ?thesis by simp
qed

lemma ext_escape_append: "ext_escape (x @ y) = ext_escape x @ ext_escape y"
  by (simp add: escape_quote_parens_append escape_star_append)

lemma encode_octets:
  assumes "well_formed s"
  shows "\<exists>e. encodeURIComponent s = Inr e
             \<and> percent_octets (ext_escape e) = Some (concat (map utf8_encode (code_points s)))"
  using assms
proof (induction s rule: encodeURIComponent.induct)
  case 1
  show ?case by (simp add: escape_star_def escape_quote_parens_def)
next
  case (2 c cs)
  show ?case
  proof (cases "uri_unescaped c")
    case True
    note ua = unescaped_ascii [OF True]
    from "2.prems" ua have "well_formed cs" by simp
    with "2.IH"(1) [OF True] obtain e where e: "encodeURIComponent cs = Inr e"
      and o: "percent_octets (ext_escape e) = Some (concat (map utf8_encode (code_points cs)))"
      by blast
    have "encodeURIComponent (c # cs) = Inr ([c] @ e)"
      using True e by (simp add: then_append_def)
    moreover have "percent_octets (ext_escape ([c] @ e))
        = Some (concat (map utf8_encode (code_points (c # cs))))"
      unfolding ext_escape_append percent_octets_unescaped [OF True]
      using o ua by (simp add: cons_option_def utf8_encode_def)
    ultimately show ?thesis by blast
  next
    case False
    show ?thesis
    proof (cases "is_leading_surrogate c")
      case True
      with "2.prems" obtain d ds where cs: "cs = d # ds" and d: "is_trailing_surrogate d"
        and wf: "well_formed ds"
        by (cases cs) auto
      from "2.IH"(2) [OF False True cs d wf] obtain e where e: "encodeURIComponent ds = Inr e"
        and o: "percent_octets (ext_escape e) = Some (concat (map utf8_encode (code_points ds)))"
        by blast
      let ?bs = "utf8_encode (UTF16SurrogatePairToCodePoint c d)"
      have b: "\<forall>b \<in> set ?bs. b < 256"
        by (rule utf8_encode_octets) (rule pair_code_point_range(2) [OF True d])
      have "encodeURIComponent (c # cs) = Inr (concat (map percent_octet ?bs) @ e)"
        using False True cs d e by (simp add: then_append_def)
      moreover have "percent_octets (ext_escape (concat (map percent_octet ?bs) @ e))
          = Some (concat (map utf8_encode (code_points (c # cs))))"
        unfolding ext_escape_append escape_escaped [OF b] percent_octets_escaped [OF b]
        using o True cs d by simp
      ultimately show ?thesis by blast
    next
      case nl: False
      from "2.prems" nl have nt: "\<not> is_trailing_surrogate c" and wf: "well_formed cs"
        by simp_all
      from "2.IH"(3) [OF False nl nt wf] obtain e where e: "encodeURIComponent cs = Inr e"
        and o: "percent_octets (ext_escape e) = Some (concat (map utf8_encode (code_points cs)))"
        by blast
      let ?bs = "utf8_encode (unat c)"
      have b: "\<forall>b \<in> set ?bs. b < 256"
        by (rule utf8_encode_octets) (rule code_unit_range)
      have "encodeURIComponent (c # cs) = Inr (concat (map percent_octet ?bs) @ e)"
        using False nl nt e by (simp add: then_append_def)
      moreover have "percent_octets (ext_escape (concat (map percent_octet ?bs) @ e))
          = Some (concat (map utf8_encode (code_points (c # cs))))"
        unfolding ext_escape_append escape_escaped [OF b] percent_octets_escaped [OF b]
        using o nl by simp
      ultimately show ?thesis by blast
    qed
  qed
qed

lemma encode_unpaired:
  assumes "\<not> well_formed s"
  shows "encodeURIComponent s = Inl (OtherError ''URIError'')"
  using assms
proof (induction s rule: encodeURIComponent.induct)
  case 1
  then show ?case by simp
next
  case (2 c cs)
  show ?case
  proof (cases "uri_unescaped c")
    case True
    note ua = unescaped_ascii [OF True]
    from "2.prems" ua have "\<not> well_formed cs" by simp
    from "2.IH"(1) [OF True this] show ?thesis
      using True by (simp add: then_append_def)
  next
    case False
    show ?thesis
    proof (cases "is_leading_surrogate c")
      case True
      show ?thesis
      proof (cases cs)
        case Nil
        then show ?thesis using False True by simp
      next
        case (Cons d ds)
        show ?thesis
        proof (cases "is_trailing_surrogate d")
          case t: True
          with "2.prems" True Cons have "\<not> well_formed ds" by simp
          from "2.IH"(2) [OF False True Cons t this] show ?thesis
            using False True Cons t by (simp add: then_append_def)
        next
          case f: False
          then show ?thesis using False True Cons by simp
        qed
      qed
    next
      case nl: False
      show ?thesis
      proof (cases "is_trailing_surrogate c")
        case True
        then show ?thesis using False nl by simp
      next
        case nt: False
        with "2.prems" nl have "\<not> well_formed cs" by simp
        from "2.IH"(3) [OF False nl nt this] show ?thesis
          using False nl nt by (simp add: then_append_def)
      qed
    qed
  qed
qed

lemma radix64_3:
  fixes cp :: nat
  shows "cp div 0x1000 * 0x1000 + (cp div 0x40) mod 0x40 * 0x40 + cp mod 0x40 = cp"
proof -
  define q r q2 r2 where "q = cp div 0x40" and "r = cp mod 0x40"
    and "q2 = q div 0x40" and "r2 = q mod 0x40"
  have c: "cp div 0x1000 = q2"
    using div_mult2_eq [of cp "0x40" "0x40"] by (simp add: q_def q2_def)
  have b: "cp = q * 0x40 + r" by (simp add: q_def r_def)
  have a: "q = q2 * 0x40 + r2" by (simp add: q2_def r2_def)
  have "q2 * 0x1000 + r2 * 0x40 + r = cp" using a b by linarith
  then show ?thesis unfolding c by (simp add: q_def r_def r2_def)
qed

lemma radix64_4:
  fixes cp :: nat
  shows "cp div 0x40000 * 0x40000 + (cp div 0x1000) mod 0x40 * 0x1000
     + (cp div 0x40) mod 0x40 * 0x40 + cp mod 0x40 = cp"
proof -
  define q r q2 r2 q3 r3 where "q = cp div 0x40" and "r = cp mod 0x40"
    and "q2 = q div 0x40" and "r2 = q mod 0x40"
    and "q3 = q2 div 0x40" and "r3 = q2 mod 0x40"
  have c: "cp div 0x1000 = q2"
    using div_mult2_eq [of cp "0x40" "0x40"] by (simp add: q_def q2_def)
  have d: "cp div 0x40000 = q3"
    using div_mult2_eq [of cp "0x1000" "0x40"] c by (simp add: q3_def)
  have b: "cp = q * 0x40 + r" by (simp add: q_def r_def)
  have a: "q = q2 * 0x40 + r2" by (simp add: q2_def r2_def)
  have a': "q2 = q3 * 0x40 + r3" by (simp add: q3_def r3_def)
  have "q3 * 0x40000 + r3 * 0x1000 + r2 * 0x40 + r = cp" using a a' b by linarith
  then show ?thesis unfolding c d by (simp add: q_def r_def r2_def r3_def)
qed

lemma utf8_roundtrip_1:
  assumes "cp < 0x80"
  shows "utf8_decode (utf8_encode cp @ bs) = cons_option cp (utf8_decode bs)"
  using assms by (simp add: utf8_encode_def)

lemma utf8_roundtrip_2:
  assumes "0x80 \<le> cp" and "cp < 0x800"
  shows "utf8_decode (utf8_encode cp @ bs) = cons_option cp (utf8_decode bs)"
proof -
  define b b1 where "b = 0xC0 + cp div 0x40" and "b1 = 0x80 + cp mod 0x40"
  have e: "utf8_encode cp = [b, b1]" using assms by (simp add: utf8_encode_def b_def b1_def)
  have 1: "\<not> b < 0x80" "0xC0 \<le> b" "b < 0xE0" using assms by (simp_all add: b_def)
  have 2: "continuation b1" by (simp add: continuation_def b1_def)
  have 3: "(b - 0xC0) * 0x40 + (b1 - 0x80) = cp" by (simp add: b_def b1_def)
  show ?thesis
    unfolding e using 1 2 3 assms(1) by (simp add: Let_def)
qed

lemma utf8_roundtrip_3:
  assumes "0x800 \<le> cp" and "cp < 0x10000" and "\<not> (0xD800 \<le> cp \<and> cp \<le> 0xDFFF)"
  shows "utf8_decode (utf8_encode cp @ bs) = cons_option cp (utf8_decode bs)"
proof -
  define b b1 b2 where "b = 0xE0 + cp div 0x1000" and "b1 = 0x80 + (cp div 0x40) mod 0x40"
    and "b2 = 0x80 + cp mod 0x40"
  have e: "utf8_encode cp = [b, b1, b2]"
    using assms by (simp add: utf8_encode_def b_def b1_def b2_def)
  have 1: "\<not> b < 0x80" "\<not> (0xC0 \<le> b \<and> b < 0xE0)" "0xE0 \<le> b" "b < 0xF0"
    using assms by (simp_all add: b_def)
  have 2: "continuation b1" "continuation b2" by (simp_all add: continuation_def b1_def b2_def)
  have 3: "(b - 0xE0) * 0x1000 + (b1 - 0x80) * 0x40 + (b2 - 0x80) = cp"
    using radix64_3 [of cp] by (simp add: b_def b1_def b2_def)
  show ?thesis
    unfolding e using 1 2 3 assms by (simp add: Let_def)
qed

lemma utf8_roundtrip_4:
  assumes "0x10000 \<le> cp" and "cp < 0x110000"
  shows "utf8_decode (utf8_encode cp @ bs) = cons_option cp (utf8_decode bs)"
proof -
  define b b1 b2 b3 where "b = 0xF0 + cp div 0x40000"
    and "b1 = 0x80 + (cp div 0x1000) mod 0x40"
    and "b2 = 0x80 + (cp div 0x40) mod 0x40" and "b3 = 0x80 + cp mod 0x40"
  have e: "utf8_encode cp = [b, b1, b2, b3]"
    using assms by (simp add: utf8_encode_def b_def b1_def b2_def b3_def)
  have 1: "\<not> b < 0x80" "\<not> (0xC0 \<le> b \<and> b < 0xE0)" "\<not> (0xE0 \<le> b \<and> b < 0xF0)"
    "0xF0 \<le> b" "b < 0xF8"
    using assms by (simp_all add: b_def)
  have 2: "continuation b1" "continuation b2" "continuation b3"
    by (simp_all add: continuation_def b1_def b2_def b3_def)
  have 3: "(b - 0xF0) * 0x40000 + (b1 - 0x80) * 0x1000 + (b2 - 0x80) * 0x40 + (b3 - 0x80) = cp"
    using radix64_4 [of cp] by (simp add: b_def b1_def b2_def b3_def)
  have 4: "cp \<le> 0x10FFFF" using assms by simp
  show ?thesis
    unfolding e using 1 2 3 4 assms(1) by (simp add: Let_def)
qed

lemma utf8_roundtrip:
  assumes "scalar_value cp"
  shows "utf8_decode (utf8_encode cp @ bs) = cons_option cp (utf8_decode bs)"
proof -
  from assms consider "cp < 0x80" | "0x80 \<le> cp \<and> cp < 0x800"
    | "0x800 \<le> cp \<and> cp < 0x10000 \<and> \<not> (0xD800 \<le> cp \<and> cp \<le> 0xDFFF)"
    | "0x10000 \<le> cp \<and> cp < 0x110000"
    unfolding scalar_value_def by arith
  then show ?thesis
    by cases (simp_all add: utf8_roundtrip_1 utf8_roundtrip_2 utf8_roundtrip_3 utf8_roundtrip_4)
qed

lemma utf8_decode_encoded:
  assumes "\<forall>cp \<in> set cps. scalar_value cp"
  shows "utf8_decode (concat (map utf8_encode cps)) = Some cps"
  using assms by (induction cps) (simp_all add: utf8_roundtrip cons_option_def)

lemma utf16_encode_unit:
  "utf16_encode (unat (c :: 16 word)) = [c]"
proof -
  have "unat c < 2 ^ LENGTH(16)" by (rule unsigned_less)
  then have "unat c < 0x10000" by simp
  then show ?thesis by (simp add: utf16_encode_def)
qed

lemma utf16_encode_pair:
  assumes "is_leading_surrogate c" and "is_trailing_surrogate d"
  shows "utf16_encode (UTF16SurrogatePairToCodePoint c d) = [c, d]"
proof -
  define h l where "h = unat c - 0xD800" and "l = unat d - 0xDC00"
  have hc: "0xD800 + h = unat c" and ld: "0xDC00 + l = unat d" and l: "l < 0x400"
    using assms
    by (auto simp add: h_def l_def is_leading_surrogate_def is_trailing_surrogate_def)
  have cp: "UTF16SurrogatePairToCodePoint c d = h * 0x400 + l + 0x10000"
    by (simp add: UTF16SurrogatePairToCodePoint_def h_def l_def)
  have "(h * 0x400 + l) div 0x400 = h" and "(h * 0x400 + l) mod 0x400 = l"
    using l by simp_all
  then have "utf16_encode (h * 0x400 + l + 0x10000)
      = [of_nat (0xD800 + h), of_nat (0xDC00 + l)]"
    by (simp add: utf16_encode_def)
  then show ?thesis unfolding cp hc ld by simp
qed

lemma code_points_scalar:
  assumes "well_formed s"
  shows "\<forall>cp \<in> set (code_points s). scalar_value cp"
  using assms
proof (induction s rule: code_points.induct)
  case 1
  then show ?case by simp
next
  case (2 c cs)
  show ?case
  proof (cases "is_leading_surrogate c")
    case True
    with "2.prems" obtain d ds where cs: "cs = d # ds" and d: "is_trailing_surrogate d"
      and wf: "well_formed ds"
      by (cases cs) auto
    have "scalar_value (UTF16SurrogatePairToCodePoint c d)"
      using pair_code_point_range [OF True d] by (simp add: scalar_value_def)
    with "2.IH"(1) [OF True cs d wf] show ?thesis
      using True cs d by simp
  next
    case False
    with "2.prems" have nt: "\<not> is_trailing_surrogate c" and wf: "well_formed cs"
      by simp_all
    have "scalar_value (unat c)"
      using False nt code_unit_range [of c]
      by (simp add: scalar_value_def is_leading_surrogate_def is_trailing_surrogate_def) arith
    with "2.IH"(3) [OF False wf] show ?thesis
      using False by simp
  qed
qed

lemma utf16_roundtrip:
  assumes "well_formed s"
  shows "concat (map utf16_encode (code_points s)) = s"
  using assms
proof (induction s rule: code_points.induct)
  case 1
  then show ?case by simp
next
  case (2 c cs)
  show ?case
  proof (cases "is_leading_surrogate c")
    case True
    with "2.prems" obtain d ds where cs: "cs = d # ds" and d: "is_trailing_surrogate d"
      and wf: "well_formed ds"
      by (cases cs) auto
    from "2.IH"(1) [OF True cs d wf] show ?thesis
      using True cs d by (simp add: utf16_encode_pair)
  next
    case False
    with "2.prems" have wf: "well_formed cs" by simp
    from "2.IH"(3) [OF False wf] show ?thesis
      using False by (simp add: utf16_encode_unit)
  qed
qed

lemma decode_roundtrip:
  assumes "well_formed s"
  shows "\<exists>e. encodeURIComponent s = Inr e \<and> decode_ext_value (ext_escape e) = Some s"
proof -
  from encode_octets [OF assms] obtain e where e: "encodeURIComponent s = Inr e"
    and o: "percent_octets (ext_escape e) = Some (concat (map utf8_encode (code_points s)))"
    by blast
  have "decode_ext_value (ext_escape e) = Some s"
    using o utf8_decode_encoded [OF code_points_scalar [OF assms]] utf16_roundtrip [OF assms]
    by (simp add: decode_ext_value_def)
  with e show ?thesis by blast
qed

lemma then_append_Inr:
  assumes "then_append x r = Inr e"
  obtains e' where "r = Inr e'" and "e = x @ e'"
  using assms by (cases r) (auto simp add: then_append_def)

lemma percent_octet_chars:
  assumes "b < 256"
  shows "\<forall>c \<in> set (percent_octet b). uri_unescaped c \<and> 0x30 \<le> unat c \<or> c = 0x25"
proof -
  have d: "uri_unescaped (hex_digit_upper d) \<and> 0x30 \<le> unat (hex_digit_upper d)" if "d < 16" for d
    using that by (auto simp add: uri_unescaped_def Let_def unat_hex_digit_upper)
  have "b div 16 < 16" and "b mod 16 < 16" using assms by simp_all
  then show ?thesis using d by (simp add: percent_octet_def)
qed

lemma escaped_chars:
  assumes "\<forall>b \<in> set bs. b < 256"
  shows "\<forall>c \<in> set (concat (map percent_octet bs)). uri_unescaped c \<and> 0x30 \<le> unat c \<or> c = 0x25"
  using assms percent_octet_chars by auto

lemma encode_chars:
  assumes "encodeURIComponent s = Inr e"
  shows "\<forall>c \<in> set e. uri_unescaped c \<or> c = 0x25"
  using assms
proof (induction s arbitrary: e rule: encodeURIComponent.induct)
  case 1
  then show ?case by simp
next
  case (2 c cs)
  show ?case
  proof (cases "uri_unescaped c")
    case True
    with "2.prems" have "then_append [c] (encodeURIComponent cs) = Inr e" by simp
    then obtain e' where e': "encodeURIComponent cs = Inr e'" and e: "e = [c] @ e'"
      by (rule then_append_Inr)
    from "2.IH"(1) [OF True e'] True show ?thesis unfolding e by simp
  next
    case False
    show ?thesis
    proof (cases "is_leading_surrogate c")
      case True
      with "2.prems" False obtain d ds where cs: "cs = d # ds" and d: "is_trailing_surrogate d"
        by (cases cs) (auto split: if_splits)
      let ?bs = "utf8_encode (UTF16SurrogatePairToCodePoint c d)"
      from "2.prems" False True cs d
      have "then_append (concat (map percent_octet ?bs)) (encodeURIComponent ds) = Inr e"
        by simp
      then obtain e' where e': "encodeURIComponent ds = Inr e'"
        and e: "e = concat (map percent_octet ?bs) @ e'"
        by (rule then_append_Inr)
      have b: "\<forall>b \<in> set ?bs. b < 256"
        by (rule utf8_encode_octets) (rule pair_code_point_range(2) [OF True d])
      from "2.IH"(2) [OF False True cs d e'] escaped_chars [OF b]
      show ?thesis unfolding e by auto
    next
      case nl: False
      with "2.prems" False have nt: "\<not> is_trailing_surrogate c"
        by (auto split: if_splits)
      let ?bs = "utf8_encode (unat c)"
      from "2.prems" False nl nt
      have "then_append (concat (map percent_octet ?bs)) (encodeURIComponent cs) = Inr e"
        by simp
      then obtain e' where e': "encodeURIComponent cs = Inr e'"
        and e: "e = concat (map percent_octet ?bs) @ e'"
        by (rule then_append_Inr)
      have b: "\<forall>b \<in> set ?bs. b < 256"
        by (rule utf8_encode_octets) (rule code_unit_range)
      from "2.IH"(3) [OF False nl nt e'] escaped_chars [OF b]
      show ?thesis unfolding e by auto
    qed
  qed
qed

lemma ext_escape_chars:
  assumes "\<forall>c \<in> set e. uri_unescaped c \<or> c = 0x25"
  shows "\<forall>c \<in> set (ext_escape e).
           0x21 \<le> unat c \<and> unat c \<le> 0x7E
         \<and> c \<noteq> 0x27 \<and> c \<noteq> 0x28 \<and> c \<noteq> 0x29 \<and> c \<noteq> 0x2A"
  using assms
proof (induction e)
  case Nil
  then show ?case by (simp add: escape_star_def escape_quote_parens_def)
next
  case (Cons c e)
  from Cons.prems have c: "uri_unescaped c \<or> c = 0x25" by simp
  have 1: "\<forall>x \<in> set (ext_escape [c]).
           0x21 \<le> unat x \<and> unat x \<le> 0x7E
         \<and> x \<noteq> 0x27 \<and> x \<noteq> 0x28 \<and> x \<noteq> 0x29 \<and> x \<noteq> 0x2A"
  proof -
    consider "c = 0x27" | "c = 0x28" | "c = 0x29" | "c = 0x2A"
      | "c \<noteq> 0x27 \<and> c \<noteq> 0x28 \<and> c \<noteq> 0x29 \<and> c \<noteq> 0x2A"
      by blast
    then show ?thesis
    proof cases
      case 5
      then have "ext_escape [c] = [c]"
        by (simp add: escape_star_def escape_quote_parens_def)
      moreover have "0x21 \<le> unat c \<and> unat c \<le> 0x7E"
        using c by (auto simp add: uri_unescaped_def Let_def)
      ultimately show ?thesis using 5 by simp
    qed (simp_all add: escaped_marks)
  qed
  have "ext_escape (c # e) = ext_escape [c] @ ext_escape e"
    using ext_escape_append [of "[c]" e] by simp
  with 1 Cons show ?case by auto
qed

lemma normalize_header_value_id:
  assumes "v \<noteq> []" and "\<not> http_whitespace (hd v)" and "\<not> http_whitespace (last v)"
  shows "normalize_header_value v = v"
proof -
  have 1: "dropWhile http_whitespace v = v"
    using assms(1,2) by (simp add: dropWhile_eq_self_iff)
  have 2: "dropWhile http_whitespace (rev v) = rev v"
    using assms(1,3) by (simp add: dropWhile_eq_self_iff hd_rev)
  show ?thesis by (simp add: normalize_header_value_def 1 2)
qed

lemma map_of_alist_set: "map_of (alist_set hs k v) k = Some v"
  by (induction hs k v rule: alist_set.induct) auto

lemma js_hd: "hd (js ''inline'' @ x) = 0x69" "hd (js ''attachment'' @ x) = 0x61"
  by (simp_all add: js_def)

lemma built_value_normal:
  assumes "buildContentDisposition fname inl = Inr v"
  shows "normalize_header_value v = v"
proof -
  from assms obtain uri where uri: "encodeURIComponent fname = Inr uri"
    and v: "v = (if inl then js ''inline'' else js ''attachment'') @ js ''; filename='' @ [0x22]
                 @ fallback_name fname @ [0x22] @ js ''; filename*=UTF-8'' @ [0x27, 0x27]
                 @ ext_escape uri"
    by (auto simp add: buildContentDisposition_def Let_def split: sum.splits)
  have ne: "v \<noteq> []" unfolding v by simp
  have h: "\<not> http_whitespace (hd v)"
    unfolding v by (simp add: js_hd http_whitespace_def)
  have ch: "\<forall>c \<in> set (ext_escape uri). 0x21 \<le> unat c"
    using ext_escape_chars [OF encode_chars [OF uri]] by blast
  have l: "\<not> http_whitespace (last v)"
  proof (cases "ext_escape uri = []")
    case True
    then show ?thesis unfolding v by (simp add: http_whitespace_def)
  next
    case False
    then have "last v = last (ext_escape uri)" unfolding v by simp
    moreover have "last (ext_escape uri) \<in> set (ext_escape uri)" using False by simp
    ultimately have "0x21 \<le> unat (last v)" using ch by simp
    then show ?thesis by (auto simp add: http_whitespace_def)
  qed
  show ?thesis by (rule normalize_header_value_id [OF ne h l])
qed

lemma Headers_set_Inr:
  assumes "Headers_set hs name v = Inr hs'"
  shows "hs' = alist_set hs name (normalize_header_value v)"
  using assms by (simp add: Headers_set_def Let_def split: if_splits)

lemma httpOkDownload_header:
  assumes "httpOkDownload body' init = Inr r"
  shows "\<exists>v. buildContentDisposition (dl_filename init)
               (case dl_inline init of None \<Rightarrow> False | Some i \<Rightarrow> i) = Inr v
           \<and> map_of (headers r) ''content-disposition'' = Some v
           \<and> status r = 200"
proof -
  let ?inl = "case dl_inline init of None \<Rightarrow> False | Some i \<Rightarrow> i"
  from assms obtain h3 v h4 where b: "buildContentDisposition (dl_filename init) ?inl = Inr v"
    and s: "Headers_set h3 ''content-disposition'' v = Inr h4"
    and r: "r = \<lparr> status = 200, resp_body = RawBody body', headers = h4 \<rparr>"
    unfolding httpOkDownload_def Let_def
    by (auto split: sum.splits)
  have "h4 = alist_set h3 ''content-disposition'' v"
    using Headers_set_Inr [OF s] built_value_normal [OF b] by simp
  then have "map_of (headers r) ''content-disposition'' = Some v"
    unfolding r by (simp add: map_of_alist_set)
  with b r show ?thesis by simp
qed

lemma example_value:
  "buildContentDisposition (js ''a b.pdf'') False
     = Inr (js ''attachment; filename='' @ [0x22] @ js ''a b.pdf'' @ [0x22]
            @ js ''; filename*=UTF-8'' @ [0x27, 0x27] @ js ''a%20b.pdf'')"
  by (simp add: buildContentDisposition_def js_def fallback_name_def uri_unescaped_def Let_def
      then_append_def is_leading_surrogate_def is_trailing_surrogate_def utf8_encode_def
      percent_octet_def hex_digit_upper_def escape_star_def escape_quote_parens_def)

lemma example_decoded: "decode_ext_value (js ''a%20b.pdf'') = Some (js ''a b.pdf'')"
  by (simp add: decode_ext_value_def js_def unhex_def Let_def cons_option_def utf16_encode_def)

text \<open>
  The header value. For every file name that is a well-formed string (no
  unpaired surrogate), \<open>buildContentDisposition\<close> returns
  \<open><type>; filename="<fallback>"; filename*=UTF-8''<encoded>\<close>, where the fallback is the
  name with \<open>/\<close>, \<open>\\\<close> and \<open>"\<close> replaced by \<open>_\<close>, and the encoded part is the
  standard component encoding of the name in which \<open>'\<close>, \<open>(\<close>, \<open>)\<close> and \<open>*\<close> are
  escaped as well: it consists of printable ASCII characters without these four, and
  percent-decoding it and reading the octets as UTF-8 gives the name back. A download
  response that \<open>httpOkDownload\<close> returns has status 200 and carries this value as its
  \<open>Content-Disposition\<close>. For the name \<open>a b.pdf\<close> the value holds \<open>filename="a b.pdf"\<close>
  and \<open>filename*=UTF-8''a%20b.pdf\<close>, which decodes to \<open>a b.pdf\<close>.
\<close>

lemma content_disposition_value:
  assumes "well_formed fname"
  shows "\<exists>uri encoded.
      encodeURIComponent fname = Inr uri
    \<and> encoded = escape_star (escape_quote_parens uri)
    \<and> buildContentDisposition fname inl
        = Inr ((if inl then js ''inline'' else js ''attachment'') @ js ''; filename='' @ [0x22]
               @ fallback_name fname @ [0x22] @ js ''; filename*=UTF-8'' @ [0x27, 0x27]
               @ encoded)
    \<and> fallback_name fname
        = map (\<lambda>c. if c = 0x2F \<or> c = 0x5C \<or> c = 0x22 then 0x5F else c) fname
    \<and> (\<forall>c \<in> set (fallback_name fname). c \<noteq> 0x2F \<and> c \<noteq> 0x5C \<and> c \<noteq> 0x22)
    \<and> (\<forall>c \<in> set encoded. 0x21 \<le> unat c \<and> unat c \<le> 0x7E
                           \<and> c \<noteq> 0x27 \<and> c \<noteq> 0x28 \<and> c \<noteq> 0x29 \<and> c \<noteq> 0x2A)
    \<and> decode_ext_value encoded = Some fname
    \<and> (\<forall>body' init r.
          dl_filename init = fname
        \<and> (case dl_inline init of None \<Rightarrow> False | Some i \<Rightarrow> i) = inl
        \<and> httpOkDownload body' init = Inr r
        \<longrightarrow> status r = 200
            \<and> map_of (headers r) ''content-disposition''
                = Some ((if inl then js ''inline'' else js ''attachment'') @ js ''; filename=''
                        @ [0x22] @ fallback_name fname @ [0x22] @ js ''; filename*=UTF-8''
                        @ [0x27, 0x27] @ encoded))
    \<and> buildContentDisposition (js ''a b.pdf'') False
        = Inr (js ''attachment; filename='' @ [0x22] @ js ''a b.pdf'' @ [0x22]
               @ js ''; filename*=UTF-8'' @ [0x27, 0x27] @ js ''a%20b.pdf'')
    \<and> decode_ext_value (js ''a%20b.pdf'') = Some (js ''a b.pdf'')"
proof -
  from decode_roundtrip [OF assms] obtain uri where uri: "encodeURIComponent fname = Inr uri"
    and dec: "decode_ext_value (ext_escape uri) = Some fname"
    by blast
  let ?encoded = "ext_escape uri"
  let ?v = "(if inl then js ''inline'' else js ''attachment'') @ js ''; filename='' @ [0x22]
               @ fallback_name fname @ [0x22] @ js ''; filename*=UTF-8'' @ [0x27, 0x27]
               @ ?encoded"
  have b: "buildContentDisposition fname inl = Inr ?v"
    using uri by (simp add: buildContentDisposition_def Let_def)
  have f1: "fallback_name fname
        = map (\<lambda>c. if c = 0x2F \<or> c = 0x5C \<or> c = 0x22 then 0x5F else c) fname"
    by (simp add: fallback_name_def)
  have f2: "\<forall>c \<in> set (fallback_name fname). c \<noteq> 0x2F \<and> c \<noteq> 0x5C \<and> c \<noteq> 0x22"
    by (auto simp add: fallback_name_def)
  have ch: "\<forall>c \<in> set ?encoded. 0x21 \<le> unat c \<and> unat c \<le> 0x7E
                           \<and> c \<noteq> 0x27 \<and> c \<noteq> 0x28 \<and> c \<noteq> 0x29 \<and> c \<noteq> 0x2A"
    by (rule ext_escape_chars [OF encode_chars [OF uri]])
  have d: "status r = 200 \<and> map_of (headers r) ''content-disposition'' = Some ?v"
    if "dl_filename init = fname
        \<and> (case dl_inline init of None \<Rightarrow> False | Some i \<Rightarrow> i) = inl
        \<and> httpOkDownload body' init = Inr r" for body' init r
    using httpOkDownload_header [of body' init r] that b by auto
  from uri b f1 f2 ch dec d example_value example_decoded show ?thesis
    by blast
qed

text \<open>
  On a name with an unpaired surrogate the component encoding throws \<open>URIError\<close>: no header
  value is built and the download helper throws.
\<close>

lemma unpaired_surrogate_throws:
  "\<not> well_formed [0xD83D]
   \<and> buildContentDisposition [0xD83D] False = Inl (OtherError ''URIError'')
   \<and> httpOkDownload None (sample_download [0xD83D]) = Inl (OtherError ''URIError'')"
  by (simp add: buildContentDisposition_def httpOkDownload_def sample_download_def
      uri_unescaped_def Let_def is_leading_surrogate_def is_trailing_surrogate_def
      Headers_set_def normalize_header_value_def js_def http_whitespace_def)

lemma mixed_name_value:
  "buildContentDisposition mixed_name True
     = Inr (js ''inline; filename='' @ [0x22] @ [0x65E5, 0x5F, 0x27, 0x2A, 0xD83D, 0xDE00, 0xE9]
            @ [0x22] @ js ''; filename*=UTF-8'' @ [0x27, 0x27]
            @ js ''%E6%97%A5%2F%27%2A%F0%9F%98%80%C3%A9'')"
  by (simp add: buildContentDisposition_def mixed_name_def js_def fallback_name_def
      uri_unescaped_def Let_def then_append_def is_leading_surrogate_def
      is_trailing_surrogate_def utf8_encode_def UTF16SurrogatePairToCodePoint_def
      percent_octet_def hex_digit_upper_def hex_digit_lower_def toUpperCase_def escape_star_def
      escape_quote_parens_def)

lemma mixed_name_well_formed: "well_formed mixed_name"
  by (simp add: mixed_name_def is_leading_surrogate_def is_trailing_surrogate_def)

lemma content_disposition_value_example:
  "well_formed mixed_name
   \<and> buildContentDisposition mixed_name True
       = Inr (js ''inline; filename='' @ [0x22] @ [0x65E5, 0x5F, 0x27, 0x2A, 0xD83D, 0xDE00, 0xE9]
              @ [0x22] @ js ''; filename*=UTF-8'' @ [0x27, 0x27]
              @ js ''%E6%97%A5%2F%27%2A%F0%9F%98%80%C3%A9'')
   \<and> decode_ext_value (js ''%E6%97%A5%2F%27%2A%F0%9F%98%80%C3%A9'') = Some mixed_name"
proof -
  from content_disposition_value [OF mixed_name_well_formed, of True]
  obtain encoded where b: "buildContentDisposition mixed_name True
        = Inr (js ''inline'' @ js ''; filename='' @ [0x22]
               @ fallback_name mixed_name @ [0x22] @ js ''; filename*=UTF-8'' @ [0x27, 0x27]
               @ encoded)"
    and d: "decode_ext_value encoded = Some mixed_name"
    by auto
  have f: "fallback_name mixed_name = [0x65E5, 0x5F, 0x27, 0x2A, 0xD83D, 0xDE00, 0xE9]"
    by (simp add: fallback_name_def mixed_name_def)
  from b have "encoded = js ''%E6%97%A5%2F%27%2A%F0%9F%98%80%C3%A9''"
    unfolding mixed_name_value f by (simp add: js_def)
  with d mixed_name_value mixed_name_well_formed show ?thesis by simp
qed

text \<open>
  The fallback keeps every character but the three it replaces. A name with a code unit
  above \<open>0xFF\<close> therefore gives a header value that is no byte string, the platform's
  \<open>Headers.set\<close> refuses it, and the download helper returns no response for such a name.
\<close>

lemma fallback_name_keeps_wide:
  assumes "c \<in> set fname" and "0xFF < unat c"
  shows "c \<in> set (fallback_name fname)"
proof -
  define f :: "16 word \<Rightarrow> 16 word"
    where "f = (\<lambda>c. if c = 0x2F \<or> c = 0x5C \<or> c = 0x22 then 0x5F else c)"
  have "c \<noteq> 0x2F"
  proof
    assume "c = 0x2F"
    then have "unat c = 0x2F" by simp
    with assms(2) show False by simp
  qed
  moreover have "c \<noteq> 0x5C"
  proof
    assume "c = 0x5C"
    then have "unat c = 0x5C" by simp
    with assms(2) show False by simp
  qed
  moreover have "c \<noteq> 0x22"
  proof
    assume "c = 0x22"
    then have "unat c = 0x22" by simp
    with assms(2) show False by simp
  qed
  ultimately have fc: "f c = c" by (simp add: f_def)
  have "f c \<in> f ` set fname" using assms(1) by (rule imageI)
  then have "c \<in> f ` set fname" by (simp only: fc)
  then show ?thesis by (simp add: fallback_name_def f_def)
qed

lemma built_value_keeps_wide:
  assumes "buildContentDisposition fname inl = Inr v"
    and "c \<in> set fname" and "0xFF < unat c"
  shows "c \<in> set v"
proof -
  from assms(1) obtain uri where
    v: "v = (if inl then js ''inline'' else js ''attachment'') @ js ''; filename='' @ [0x22]
                 @ fallback_name fname @ [0x22] @ js ''; filename*=UTF-8'' @ [0x27, 0x27]
                 @ escape_star (escape_quote_parens uri)"
    by (auto simp add: buildContentDisposition_def Let_def split: sum.splits)
  show ?thesis
    unfolding v using fallback_name_keeps_wide [OF assms(2,3)] by simp
qed

lemma wide_name_never_downloads:
  assumes "c \<in> set (dl_filename init)" and "0xFF < unat c"
  shows "httpOkDownload body' init \<noteq> Inr r"
proof
  assume ok: "httpOkDownload body' init = Inr r"
  let ?inl = "case dl_inline init of None \<Rightarrow> False | Some i \<Rightarrow> i"
  from ok obtain h3 v h4 where b: "buildContentDisposition (dl_filename init) ?inl = Inr v"
    and s: "Headers_set h3 ''content-disposition'' v = Inr h4"
    unfolding httpOkDownload_def Let_def
    by (auto split: sum.splits)
  from built_value_keeps_wide [OF b assms] have "\<exists>c \<in> set v. 0xFF < unat c"
    using assms(2) by blast
  then have "Headers_set h3 ''content-disposition'' v = Inl (OtherError ''TypeError'')"
    by (simp only: Headers_set_def if_True)
  with s show False by simp
qed

lemmas download_eval =
  buildContentDisposition_def httpOkDownload_def sample_download_def
  uri_unescaped_def Let_def is_leading_surrogate_def is_trailing_surrogate_def
  Headers_set_def normalize_header_value_def js_def http_whitespace_def then_append_def
  utf8_encode_def percent_octet_def hex_digit_upper_def escape_star_def
  escape_quote_parens_def fallback_name_def

text \<open>
  Claim C7. The claim has the header of a download response hold, for every file name, an
  ASCII fallback parameter and an extended parameter that decodes back to the name. For
  the one-character name \<open>U+65E5\<close> the value that \<open>buildContentDisposition\<close> builds holds
  the character itself in the fallback parameter, beside the extended parameter
  \<open>filename*=UTF-8''%E6%97%A5\<close>; \<open>Headers.set\<close> refuses that value and \<open>httpOkDownload\<close>
  throws \<open>TypeError\<close>: there is no response and no header. A name with an unpaired
  surrogate ends in \<open>URIError\<close>. The download of \<open>a b.pdf\<close> succeeds, with the header of
  the claim.
\<close>

theorem wide_name_download_throws:
  "buildContentDisposition [0x65E5] False
     = Inr (js ''attachment; filename='' @ [0x22, 0x65E5, 0x22]
            @ js ''; filename*=UTF-8'' @ [0x27, 0x27] @ js ''%E6%97%A5'')
   \<and> httpOkDownload None (sample_download [0x65E5]) = Inl (OtherError ''TypeError'')
   \<and> httpOkDownload None (sample_download [0xD83D]) = Inl (OtherError ''URIError'')
   \<and> httpOkDownload None (sample_download (js ''a b.pdf''))
     = Inr \<lparr> status = 200, resp_body = RawBody None,
             headers = [(''content-type'', js ''application/octet-stream''),
                        (''content-disposition'',
                         js ''attachment; filename='' @ [0x22] @ js ''a b.pdf'' @ [0x22]
                         @ js ''; filename*=UTF-8'' @ [0x27, 0x27] @ js ''a%20b.pdf'')] \<rparr>"
  by (simp add: download_eval)

end
